theory Spec2Isabelle
  imports Main "HOL-Library.Word"
begin

unbundle bit_operations_syntax

text \<open>
  The cryptographic core of ai-email: the envelope encryption of \<open>src/crypto/encrypt.js\<close>
  (\<open>encrypt\<close>, \<open>decrypt\<close>, \<open>encryptBatch\<close>, \<open>decryptBatch\<close>, \<open>validateEncryptedData\<close>) and
  the key handling of \<open>src/keygen.js\<close> (\<open>generateKeyPair\<close>, \<open>encryptPrivateKey\<close>,
  \<open>decryptPrivateKey\<close>, \<open>saveKeys\<close>, \<open>verifyKeyPair\<close>), as functions over JavaScript values.
  An exception is a result \<open>Inl e\<close>; randomness, the clock and the file system are
  arguments; the libraries are a record of functions.
\<close>

section \<open>Bytes and strings\<close>

text \<open>
  A \<open>Buffer\<close> or \<open>Uint8Array\<close> is a list of bytes. A JavaScript string is modelled
  by its sequence of code points (a surrogate pair counts as the one code point it encodes;
  an unpaired surrogate is a code point in \<open>D800..DFFF\<close>); every code point is below
  \<open>0x110000\<close>. Property names are ordinary Isabelle strings.
\<close>

type_synonym byte = "8 word"
type_synonym bytes = "byte list"
type_synonym ustring = "nat list"

definition ascii :: "string \<Rightarrow> ustring" where
  "ascii s = map (\<lambda>c. nat (of_char c)) s"

definition byte_of :: "nat \<Rightarrow> byte" where
  "byte_of n = of_nat n"

definition xor_bytes :: "bytes \<Rightarrow> bytes \<Rightarrow> bytes" where
  "xor_bytes xs ys = map (\<lambda>(x, y). x XOR y) (zip xs ys)"

text \<open>
  The UTF-16 units of a string, which is what \<open>s.length\<close> counts and what Node's
  \<open>'hex'\<close> and \<open>'base64'\<close> decoders read; they look at the low byte of each unit only.
\<close>

definition utf16_units :: "nat \<Rightarrow> nat list" where
  "utf16_units c =
     (if c < 0x10000 then [c]
      else [0xD800 + (c - 0x10000) div 0x400, 0xDC00 + (c - 0x10000) mod 0x400])"

definition utf16 :: "ustring \<Rightarrow> nat list" where
  "utf16 s = concat (map utf16_units s)"

definition low_bytes :: "ustring \<Rightarrow> nat list" where
  "low_bytes s = map (\<lambda>u. u mod 256) (utf16 s)"

subsection \<open>Hexadecimal text: \<open>buf.toString('hex')\<close> and \<open>Buffer.from(s, 'hex')\<close>\<close>

definition hex_digit :: "nat \<Rightarrow> nat" where
  "hex_digit d = (if d < 10 then 48 + d else 87 + d)"

definition hex_encode :: "bytes \<Rightarrow> ustring" where
  "hex_encode bs = concat (map (\<lambda>b. [hex_digit (unat b div 16), hex_digit (unat b mod 16)]) bs)"

definition unhex :: "nat \<Rightarrow> nat option" where
  "unhex c =
     (if 48 \<le> c \<and> c \<le> 57 then Some (c - 48)
      else if 97 \<le> c \<and> c \<le> 102 then Some (c - 87)
      else if 65 \<le> c \<and> c \<le> 70 then Some (c - 55)
      else None)"

text \<open>
  Node decodes a string pair by pair, looking at the low byte of each UTF-16 unit, and
  stops at the first pair that is not two hexadecimal digits; a trailing single unit is
  dropped. It does not throw on a string.
\<close>

fun hex_decode :: "ustring \<Rightarrow> bytes" where
  "hex_decode (a # b # rest) =
     (case unhex a of
        None \<Rightarrow> []
      | Some x \<Rightarrow>
          (case unhex b of
             None \<Rightarrow> []
           | Some y \<Rightarrow> byte_of (16 * x + y) # hex_decode rest))"
| "hex_decode _ = []"

definition hex_text :: "ustring \<Rightarrow> bytes" where
  "hex_text s = hex_decode (low_bytes s)"

subsection \<open>UTF-8: \<open>TextEncoder\<close>, \<open>TextDecoder\<close> and Node's \<open>'utf8'\<close> encoding\<close>

definition is_surrogate :: "nat \<Rightarrow> bool" where
  "is_surrogate c = (0xD800 \<le> c \<and> c \<le> 0xDFFF)"

definition scalar_value :: "nat \<Rightarrow> bool" where
  "scalar_value c = (c < 0x110000 \<and> \<not> is_surrogate c)"

text \<open>The encoder writes an unpaired surrogate as U+FFFD (bytes EF BF BD).\<close>

definition utf8_encode_cp :: "nat \<Rightarrow> bytes" where
  "utf8_encode_cp c =
     (if is_surrogate c then [0xEF, 0xBF, 0xBD]
      else if c < 0x80 then [byte_of c]
      else if c < 0x800 then [byte_of (0xC0 + c div 64), byte_of (0x80 + c mod 64)]
      else if c < 0x10000 then
        [byte_of (0xE0 + c div 4096), byte_of (0x80 + (c div 64) mod 64), byte_of (0x80 + c mod 64)]
      else
        [byte_of (0xF0 + c div 262144), byte_of (0x80 + (c div 4096) mod 64),
         byte_of (0x80 + (c div 64) mod 64), byte_of (0x80 + c mod 64)])"

definition utf8_encode :: "ustring \<Rightarrow> bytes" where
  "utf8_encode s = concat (map utf8_encode_cp s)"

text \<open>
  The decoder is the state machine of the Encoding Standard: the code point collected so
  far, the number of continuation bytes still needed, and the bounds for the next byte.
  A byte that cannot continue a sequence ends it with U+FFFD and is then read again as
  the start of a new sequence.
\<close>

record utf8_state =
  code_point :: nat
  bytes_needed :: nat
  lower_boundary :: nat
  upper_boundary :: nat

definition utf8_init :: utf8_state where
  "utf8_init = \<lparr>code_point = 0, bytes_needed = 0, lower_boundary = 0x80, upper_boundary = 0xBF\<rparr>"

definition utf8_lead :: "nat \<Rightarrow> nat list \<times> utf8_state" where
  "utf8_lead b =
     (if b < 0x80 then ([b], utf8_init)
      else if 0xC2 \<le> b \<and> b \<le> 0xDF then
        ([], utf8_init\<lparr>code_point := b - 0xC0, bytes_needed := 1\<rparr>)
      else if 0xE0 \<le> b \<and> b \<le> 0xEF then
        ([], \<lparr>code_point = b - 0xE0, bytes_needed = 2,
              lower_boundary = (if b = 0xE0 then 0xA0 else 0x80),
              upper_boundary = (if b = 0xED then 0x9F else 0xBF)\<rparr>)
      else if 0xF0 \<le> b \<and> b \<le> 0xF4 then
        ([], \<lparr>code_point = b - 0xF0, bytes_needed = 3,
              lower_boundary = (if b = 0xF0 then 0x90 else 0x80),
              upper_boundary = (if b = 0xF4 then 0x8F else 0xBF)\<rparr>)
      else ([0xFFFD], utf8_init))"

definition utf8_step :: "utf8_state \<Rightarrow> nat \<Rightarrow> nat list \<times> utf8_state" where
  "utf8_step st b =
     (if bytes_needed st = 0 then utf8_lead b
      else if b < lower_boundary st \<or> upper_boundary st < b then
        (0xFFFD # fst (utf8_lead b), snd (utf8_lead b))
      else
        (let cp = code_point st * 64 + (b - 0x80) in
         if bytes_needed st = 1 then ([cp], utf8_init)
         else ([], utf8_init\<lparr>code_point := cp, bytes_needed := bytes_needed st - 1\<rparr>)))"

fun utf8_run :: "utf8_state \<Rightarrow> bytes \<Rightarrow> ustring" where
  "utf8_run st [] = (if bytes_needed st = 0 then [] else [0xFFFD])"
| "utf8_run st (b # bs) = fst (utf8_step st (unat b)) @ utf8_run (snd (utf8_step st (unat b))) bs"

text \<open>Node's \<open>'utf8'\<close> output encoding keeps a leading byte order mark.\<close>

definition utf8_decode :: "bytes \<Rightarrow> ustring" where
  "utf8_decode bs = utf8_run utf8_init bs"

text \<open>\<open>new TextDecoder().decode\<close> (\<open>ignoreBOM\<close> is false) drops a leading EF BB BF first.\<close>

definition text_decode :: "bytes \<Rightarrow> ustring" where
  "text_decode bs =
     (case bs of
        b0 # b1 # b2 # rest \<Rightarrow>
          if b0 = 0xEF \<and> b1 = 0xBB \<and> b2 = 0xBF then utf8_decode rest else utf8_decode bs
      | _ \<Rightarrow> utf8_decode bs)"

section \<open>JavaScript values, exceptions and objects\<close>

text \<open>
  The values the code handles: the numbers are the integers (time stamps), an object is the
  list of its properties in the order they were added.
\<close>

datatype jsval =
    JUndefined
  | JNull
  | JBool bool
  | JNum int
  | JStr ustring
  | JBytes bytes
  | JArr "jsval list"
  | JObj "(string \<times> jsval) list"

text \<open>A thrown exception is the left summand of the result.\<close>

datatype error =
    TypeError
  | SyntaxError
  | DecodeError
  | InvalidKey
  | InvalidKeyLength
  | InvalidIV
  | InvalidAuthTagLength
  | AuthenticationFailure

definition bind :: "error + 'a \<Rightarrow> ('a \<Rightarrow> error + 'b) \<Rightarrow> error + 'b" where
  "bind r f = (case r of Inl e \<Rightarrow> Inl e | Inr x \<Rightarrow> f x)"

text \<open>\<open>try { body } catch { handler }\<close>\<close>

definition try_catch :: "error + 'a \<Rightarrow> (error \<Rightarrow> error + 'a) \<Rightarrow> error + 'a" where
  "try_catch body handler = (case body of Inl e \<Rightarrow> handler e | Inr x \<Rightarrow> Inr x)"

fun truthy :: "jsval \<Rightarrow> bool" where
  "truthy JUndefined = False"
| "truthy JNull = False"
| "truthy (JBool b) = b"
| "truthy (JNum n) = (n \<noteq> 0)"
| "truthy (JStr s) = (s \<noteq> [])"
| "truthy (JBytes b) = True"
| "truthy (JArr xs) = True"
| "truthy (JObj ps) = True"

text \<open>
  \<open>v.name\<close> for the property names the code reads: reading a property of \<open>undefined\<close> or
  \<open>null\<close> throws, an object gives the stored value or \<open>undefined\<close>, any other value has
  no such property.
\<close>

fun get_prop :: "jsval \<Rightarrow> string \<Rightarrow> error + jsval" where
  "get_prop JUndefined name = Inl TypeError"
| "get_prop JNull name = Inl TypeError"
| "get_prop (JObj ps) name = Inr (case map_of ps name of None \<Rightarrow> JUndefined | Some v \<Rightarrow> v)"
| "get_prop v name = Inr JUndefined"

text \<open>
  The properties of an object are listed with the array indices first, in ascending order,
  and the other names behind them in the order in which they were added. An array index is
  the decimal text, without leading zeros, of a number below \<open>2^32 - 1\<close>.
\<close>

definition array_index :: "string \<Rightarrow> int option" where
  "array_index k =
     (if k \<noteq> [] \<and> list_all (\<lambda>c. 48 \<le> (of_char c :: nat) \<and> of_char c \<le> (57 :: nat)) k \<and>
         (k = ''0'' \<or> hd k \<noteq> CHR ''0'') \<and>
         foldl (\<lambda>n c. 10 * n + (of_char c - 48)) 0 k < (4294967295 :: int)
      then Some (foldl (\<lambda>n c. 10 * n + (of_char c - 48)) 0 k)
      else None)"

definition key_before :: "string \<Rightarrow> string \<Rightarrow> bool" where
  "key_before k k' =
     (case array_index k of
        None \<Rightarrow> False
      | Some n \<Rightarrow> (case array_index k' of None \<Rightarrow> True | Some m \<Rightarrow> n < m))"

text \<open>
  Writing a property keeps the place of a name already present; a new array index goes to
  its place among the indices, and any other new name to the end.
\<close>

fun put :: "string \<Rightarrow> jsval \<Rightarrow> (string \<times> jsval) list \<Rightarrow> (string \<times> jsval) list" where
  "put k v [] = [(k, v)]"
| "put k v ((k', v') # ps) =
     (if k = k' then (k, v) # ps
      else if key_before k k' then (k, v) # (k', v') # ps
      else (k', v') # put k v ps)"

function index_name :: "nat \<Rightarrow> string" where
  "index_name n =
     (if n < 10 then [char_of (48 + n)]
      else index_name (n div 10) @ [char_of (48 + n mod 10)])"
  by pat_completeness auto
termination
  by (relation "measure id") auto

text \<open>
  The own enumerable properties that an object spread \<open>{...v}\<close> copies: the properties of an
  object, the elements of an array, of a buffer or of a string (one UTF-16 unit each) under
  their indices, nothing for the other values.
\<close>

fun own_props :: "jsval \<Rightarrow> (string \<times> jsval) list" where
  "own_props (JObj ps) = ps"
| "own_props (JArr xs) = zip (map index_name [0..<length xs]) xs"
| "own_props (JStr s) = zip (map index_name [0..<length (utf16 s)]) (map (\<lambda>u. JStr [u]) (utf16 s))"
| "own_props (JBytes b) = zip (map index_name [0..<length b]) (map (\<lambda>x. JNum (uint x)) b)"
| "own_props v = []"

definition spread :: "(string \<times> jsval) list \<Rightarrow> jsval \<Rightarrow> (string \<times> jsval) list" where
  "spread acc v = fold (\<lambda>(k, x) ps. put k x ps) (own_props v) acc"

fun map_result :: "('a \<Rightarrow> error + 'b) \<Rightarrow> 'a list \<Rightarrow> error + 'b list" where
  "map_result f [] = Inr []"
| "map_result f (x # xs) = bind (f x) (\<lambda>y. bind (map_result f xs) (\<lambda>ys. Inr (y # ys)))"

subsection \<open>\<open>Buffer.from(value, encoding)\<close>\<close>

text \<open>
  A string is decoded by its encoding. A buffer is copied. An array gives one byte per
  element: a number by its low byte, \<open>true\<close> as 1, and the other elements, which Node
  converts to a number first, as 0 (as \<open>null\<close>, \<open>undefined\<close>, an object and text that is
  no numeral are). An object with
  a \<open>length\<close> is read like an array when the length is a number and gives the empty
  buffer otherwise; an object \<open>{type: 'Buffer', data: [...]}\<close> is read by its \<open>data\<close>.
  The code asks an object for \<open>valueOf\<close> first: a property of that name that is truthy
  cannot be called, and one that is the empty string is decoded in place of the object.
  Every other value is a \<open>TypeError\<close>.
\<close>

fun array_byte :: "jsval \<Rightarrow> byte" where
  "array_byte (JNum n) = of_int n"
| "array_byte (JBool b) = (if b then 1 else 0)"
| "array_byte v = 0"

definition array_like :: "(string \<times> jsval) list \<Rightarrow> int \<Rightarrow> bytes" where
  "array_like ps n =
     map (\<lambda>i. case map_of ps (index_name i) of None \<Rightarrow> 0 | Some v \<Rightarrow> array_byte v) [0..<nat n]"

definition from_object :: "(string \<times> jsval) list \<Rightarrow> error + bytes" where
  "from_object ps =
     (case map_of ps ''length'' of
        Some (JNum n) \<Rightarrow> Inr (array_like ps n)
      | Some JUndefined \<Rightarrow>
          (case (map_of ps ''type'', map_of ps ''data'') of
             (Some (JStr t), Some (JArr xs)) \<Rightarrow>
               if t = ascii ''Buffer'' then Inr (map array_byte xs) else Inl TypeError
           | _ \<Rightarrow> Inl TypeError)
      | Some v \<Rightarrow> Inr []
      | None \<Rightarrow>
          (case (map_of ps ''type'', map_of ps ''data'') of
             (Some (JStr t), Some (JArr xs)) \<Rightarrow>
               if t = ascii ''Buffer'' then Inr (map array_byte xs) else Inl TypeError
           | _ \<Rightarrow> Inl TypeError))"

definition buffer_from :: "(ustring \<Rightarrow> bytes) \<Rightarrow> jsval \<Rightarrow> error + bytes" where
  "buffer_from decode v =
     (case v of
        JStr s \<Rightarrow> Inr (decode s)
      | JBytes b \<Rightarrow> Inr b
      | JArr xs \<Rightarrow> Inr (map array_byte xs)
      | JObj ps \<Rightarrow>
          (case map_of ps ''valueOf'' of
             None \<Rightarrow> from_object ps
           | Some w \<Rightarrow>
               if truthy w then Inl TypeError
               else if w = JStr [] then Inr (decode [])
               else from_object ps)
      | _ \<Rightarrow> Inl TypeError)"

section \<open>The libraries the code calls\<close>

text \<open>
  The code computes nothing cryptographic itself: it calls \<open>@noble/curves\<close> (X25519), Node's
  \<open>crypto\<close> (ChaCha20-Poly1305, AES-256-GCM, PBKDF2), a Base64 codec (\<open>base64\<close> of
  \<open>@noble/curves\<close> in \<open>src/crypto/encrypt.js\<close>, \<open>Buffer\<close> in \<open>keygen.js\<close> and in the second
  copy of the encryption module) and \<open>JSON\<close>. These are parameters of the model. Both AEAD
  ciphers are stream ciphers: the output is the input XORed with a key stream, and the tag
  is a function of key, nonce and ciphertext. \<open>json_stringify L n v\<close> is
  \<open>JSON.stringify(v, null, n)\<close>, and \<open>JSON.stringify(v)\<close> for \<open>n = 0\<close>.
\<close>

datatype cipher_alg = ChaCha20_Poly1305 | AES_256_GCM

record lib =
  base64_encode :: "bytes \<Rightarrow> ustring"
  base64_decode :: "jsval \<Rightarrow> error + bytes"
  x25519_getPublicKey :: "bytes \<Rightarrow> error + bytes"
  x25519_getSharedSecret :: "bytes \<Rightarrow> bytes \<Rightarrow> error + bytes"
  key_stream :: "cipher_alg \<Rightarrow> bytes \<Rightarrow> bytes \<Rightarrow> nat \<Rightarrow> byte"
  auth_tag :: "cipher_alg \<Rightarrow> bytes \<Rightarrow> bytes \<Rightarrow> bytes \<Rightarrow> bytes"
  pbkdf2Sync :: "bytes \<Rightarrow> bytes \<Rightarrow> nat \<Rightarrow> nat \<Rightarrow> bytes"
  json_parse :: "ustring \<Rightarrow> error + jsval"
  json_stringify :: "nat \<Rightarrow> jsval \<Rightarrow> ustring"
  error_message :: "error \<Rightarrow> ustring"

subsection \<open>Node's \<open>Cipher\<close> and \<open>Decipher\<close> objects\<close>

record cipher_ctx =
  c_alg :: cipher_alg
  c_key :: bytes
  c_iv :: bytes
  c_tag :: "bytes option"
  c_seen :: bytes

definition iv_ok :: "cipher_alg \<Rightarrow> bytes \<Rightarrow> bool" where
  "iv_ok alg iv =
     (case alg of
        ChaCha20_Poly1305 \<Rightarrow> length iv = 12
      | AES_256_GCM \<Rightarrow> 0 < length iv)"

text \<open>
  \<open>createCipheriv\<close> and \<open>createDecipheriv\<close> check the key and the nonce alike: a key of
  32 bytes, for ChaCha20-Poly1305 a nonce of 12 bytes, for AES-GCM a nonce that is not empty.
\<close>

definition createCipheriv :: "cipher_alg \<Rightarrow> bytes \<Rightarrow> bytes \<Rightarrow> error + cipher_ctx" where
  "createCipheriv alg key iv =
     (if length key \<noteq> 32 then Inl InvalidKeyLength
      else if \<not> iv_ok alg iv then Inl InvalidIV
      else Inr \<lparr>c_alg = alg, c_key = key, c_iv = iv, c_tag = None, c_seen = []\<rparr>)"

definition createDecipheriv :: "cipher_alg \<Rightarrow> bytes \<Rightarrow> bytes \<Rightarrow> error + cipher_ctx" where
  "createDecipheriv alg key iv = createCipheriv alg key iv"

definition stream_from :: "lib \<Rightarrow> cipher_ctx \<Rightarrow> nat \<Rightarrow> bytes" where
  "stream_from L c n =
     map (key_stream L (c_alg c) (c_key c) (c_iv c)) [length (c_seen c)..<length (c_seen c) + n]"

text \<open>\<open>cipher.update(data)\<close>: the ciphertext, which the tag will cover.\<close>

definition cipher_update :: "lib \<Rightarrow> cipher_ctx \<Rightarrow> bytes \<Rightarrow> cipher_ctx \<times> bytes" where
  "cipher_update L c d =
     (let out = xor_bytes d (stream_from L c (length d)) in (c\<lparr>c_seen := c_seen c @ out\<rparr>, out))"

definition cipher_final :: "cipher_ctx \<Rightarrow> bytes" where
  "cipher_final c = []"

definition getAuthTag :: "lib \<Rightarrow> cipher_ctx \<Rightarrow> bytes" where
  "getAuthTag L c = auth_tag L (c_alg c) (c_key c) (c_iv c) (c_seen c)"

text \<open>
  \<open>decipher.setAuthTag(tag)\<close>: ChaCha20-Poly1305 takes a tag of 16 bytes only; AES-GCM
  takes any of the GCM tag lengths.
\<close>

definition tag_length_ok :: "cipher_alg \<Rightarrow> nat \<Rightarrow> bool" where
  "tag_length_ok alg n =
     (case alg of
        ChaCha20_Poly1305 \<Rightarrow> n = 16
      | AES_256_GCM \<Rightarrow> n = 4 \<or> n = 8 \<or> (12 \<le> n \<and> n \<le> 16))"

definition setAuthTag :: "cipher_ctx \<Rightarrow> bytes \<Rightarrow> error + cipher_ctx" where
  "setAuthTag c t =
     (if tag_length_ok (c_alg c) (length t) then Inr (c\<lparr>c_tag := Some t\<rparr>)
      else Inl InvalidAuthTagLength)"

text \<open>\<open>decipher.update(data)\<close> hands out the plaintext at once; nothing is verified yet.\<close>

definition decipher_update :: "lib \<Rightarrow> cipher_ctx \<Rightarrow> bytes \<Rightarrow> cipher_ctx \<times> bytes" where
  "decipher_update L c d =
     (c\<lparr>c_seen := c_seen c @ d\<rparr>, xor_bytes d (stream_from L c (length d)))"

text \<open>
  \<open>decipher.final()\<close> is the only place where the tag is compared: it throws unless the
  tag set before equals the tag of what \<open>update\<close> has read, cut to the given length.
\<close>

definition decipher_final :: "lib \<Rightarrow> cipher_ctx \<Rightarrow> error + bytes" where
  "decipher_final L c =
     (case c_tag c of
        None \<Rightarrow> Inl AuthenticationFailure
      | Some t \<Rightarrow>
          if take (length t) (auth_tag L (c_alg c) (c_key c) (c_iv c) (c_seen c)) = t then Inr []
          else Inl AuthenticationFailure)"

section \<open>The encryption module (\<open>src/crypto/encrypt.js\<close>)\<close>

text \<open>
  The plaintext of \<open>encrypt\<close> is a string or a \<open>Uint8Array\<close>. What the code draws from
  outside is passed in: the ephemeral private key of \<open>x25519.utils.randomPrivateKey()\<close>,
  the nonce of \<open>crypto.randomBytes(12)\<close> and the time of \<open>Date.now()\<close>.
\<close>

datatype plaintext = PText ustring | PBytes bytes

definition plaintext_bytes :: "plaintext \<Rightarrow> bytes" where
  "plaintext_bytes p = (case p of PBytes b \<Rightarrow> b | PText s \<Rightarrow> utf8_encode s)"

definition encrypt :: "lib \<Rightarrow> bytes \<Rightarrow> bytes \<Rightarrow> int \<Rightarrow> jsval \<Rightarrow> plaintext \<Rightarrow> error + jsval" where
  "encrypt L ephemeralPrivateKey nonce now publicKeyBase64 plaintext =
     bind (base64_decode L publicKeyBase64) (\<lambda>publicKey.
     bind (x25519_getPublicKey L ephemeralPrivateKey) (\<lambda>ephemeralPublicKey.
     bind (x25519_getSharedSecret L ephemeralPrivateKey publicKey) (\<lambda>sharedKey.
     bind (createCipheriv ChaCha20_Poly1305 sharedKey nonce) (\<lambda>cipher.
       let (cipher', body) = cipher_update L cipher (plaintext_bytes plaintext);
           ciphertext = body @ cipher_final cipher' @ getAuthTag L cipher'
       in Inr (JObj
            [(''keyId'', JStr (base64_encode L (take 8 publicKey))),
             (''ephemeralPublicKey'', JStr (base64_encode L ephemeralPublicKey)),
             (''nonce'', JStr (base64_encode L nonce)),
             (''ciphertext'', JStr (base64_encode L ciphertext)),
             (''timestamp'', JNum now)])))))"

text \<open>
  \<open>decrypt\<close> sets the tag, calls \<open>update\<close> and decodes what \<open>update\<close> returned;
  it does not call \<open>final\<close>. \<open>slice(-16)\<close> is the last 16 bytes (all of them when there
  are fewer), \<open>slice(0, -16)\<close> the bytes before.
\<close>

definition decrypt :: "lib \<Rightarrow> jsval \<Rightarrow> jsval \<Rightarrow> error + ustring" where
  "decrypt L privateKeyBase64 encryptedData =
     bind (base64_decode L privateKeyBase64) (\<lambda>privateKey.
     bind (get_prop encryptedData ''ephemeralPublicKey'') (\<lambda>epk64.
     bind (base64_decode L epk64) (\<lambda>ephemeralPublicKey.
     bind (x25519_getSharedSecret L privateKey ephemeralPublicKey) (\<lambda>sharedKey.
     bind (get_prop encryptedData ''nonce'') (\<lambda>nonce64.
     bind (base64_decode L nonce64) (\<lambda>nonce.
     bind (get_prop encryptedData ''ciphertext'') (\<lambda>ciphertext64.
     bind (base64_decode L ciphertext64) (\<lambda>ciphertext.
     bind (createDecipheriv ChaCha20_Poly1305 sharedKey nonce) (\<lambda>decipher.
     bind (setAuthTag decipher (drop (length ciphertext - 16) ciphertext)) (\<lambda>decipher'.
       let (decipher'', plaintextBytes) =
             decipher_update L decipher' (take (length ciphertext - 16) ciphertext)
       in Inr (text_decode plaintextBytes)))))))))))"

text \<open>
  The callback that \<open>encryptBatch\<close> maps over the list, with the randomness and the time of
  its call of \<open>encrypt\<close>; \<open>draw i\<close> is what the call for the element at index \<open>i\<close> draws.
\<close>

definition encryptBatch_element ::
  "lib \<Rightarrow> bytes \<Rightarrow> bytes \<Rightarrow> int \<Rightarrow> jsval \<Rightarrow> jsval \<Rightarrow> error + jsval" where
  "encryptBatch_element L ephemeralPrivateKey nonce now publicKeyBase64 email =
     bind (encrypt L ephemeralPrivateKey nonce now publicKeyBase64
             (PText (json_stringify L 0 email))) (\<lambda>encryption.
       Inr (JObj (put ''encryption'' encryption
                 (put ''encrypted'' (JBool True)
                 (spread [] email)))))"

definition encryptBatch ::
  "lib \<Rightarrow> (nat \<Rightarrow> bytes \<times> bytes \<times> int) \<Rightarrow> jsval \<Rightarrow> jsval list \<Rightarrow> error + jsval list" where
  "encryptBatch L draw publicKeyBase64 emails =
     map_result
       (\<lambda>(i, email).
          case draw i of (ephemeralPrivateKey, nonce, now) \<Rightarrow>
            encryptBatch_element L ephemeralPrivateKey nonce now publicKeyBase64 email)
       (zip [0..<length emails] emails)"

text \<open>The failure marker of \<open>decryptBatch\<close>, the text of its \<open>error\<close> property.\<close>

definition decrypt_failed :: ustring where
  "decrypt_failed = [0x89E3, 0x5BC6, 0x5931, 0x8D25]"

text \<open>
  The callback that \<open>decryptBatch\<close> maps over the list; \<open>now\<close> is \<open>Date.now()\<close>. The
  line that \<open>console.error\<close> prints in the \<open>catch\<close> branch is left out.
\<close>

definition decryptBatch_element :: "lib \<Rightarrow> jsval \<Rightarrow> int \<Rightarrow> jsval \<Rightarrow> error + jsval" where
  "decryptBatch_element L privateKeyBase64 now email =
     bind (get_prop email ''encrypted'') (\<lambda>encrypted.
       if \<not> truthy encrypted then Inr email
       else
     bind (get_prop email ''encryption'') (\<lambda>encryption.
       if \<not> truthy encryption then Inr email
       else
         try_catch
           (bind (decrypt L privateKeyBase64 encryption) (\<lambda>decryptedContent.
            bind (json_parse L decryptedContent) (\<lambda>parsed.
              Inr (JObj (put ''decryptedAt'' (JNum now)
                        (put ''encrypted'' (JBool False)
                        (spread (spread [] email) parsed)))))))
           (\<lambda>e. Inr (JObj (put ''errorMessage'' (JStr (error_message L e))
                          (put ''error'' (JStr decrypt_failed)
                          (spread [] email)))))))"

text \<open>\<open>clock i\<close> is the time at which the element at index \<open>i\<close> is handled.\<close>

definition decryptBatch :: "lib \<Rightarrow> (nat \<Rightarrow> int) \<Rightarrow> jsval \<Rightarrow> jsval list \<Rightarrow> error + jsval list" where
  "decryptBatch L clock privateKeyBase64 encryptedEmails =
     map_result (\<lambda>(i, email). decryptBatch_element L privateKeyBase64 (clock i) email)
       (zip [0..<length encryptedEmails] encryptedEmails)"



section \<open>The key generator (\<open>src/keygen.js\<close>)\<close>

text \<open>
  The private key and the password are strings. The salt of \<open>generateSalt()\<close> and the
  initialisation vector of \<open>crypto.randomBytes(16)\<close> are passed in.
\<close>

definition encryptPrivateKey :: "lib \<Rightarrow> bytes \<Rightarrow> bytes \<Rightarrow> ustring \<Rightarrow> ustring \<Rightarrow> error + jsval" where
  "encryptPrivateKey L salt iv privateKey password =
     (let key = pbkdf2Sync L (utf8_encode password) salt 100000 32 in
      bind (createCipheriv AES_256_GCM key iv) (\<lambda>cipher.
        let (cipher', out) = cipher_update L cipher (utf8_encode privateKey);
            encrypted = hex_encode out @ hex_encode (cipher_final cipher');
            authTag = getAuthTag L cipher'
        in Inr (JObj
             [(''salt'', JStr (hex_encode salt)),
              (''iv'', JStr (hex_encode iv)),
              (''authTag'', JStr (hex_encode authTag)),
              (''encrypted'', JStr encrypted)])))"

text \<open>
  \<open>Buffer.from(v, 'hex')\<close>, and \<open>decipher.update(v, 'hex', 'utf8')\<close>: \<open>update\<close> takes a
  string or a buffer only, and throws a \<open>TypeError\<close> on hexadecimal text with an odd
  number of units.
\<close>

definition from_hex :: "jsval \<Rightarrow> error + bytes" where
  "from_hex v = buffer_from hex_text v"

definition update_hex :: "jsval \<Rightarrow> error + bytes" where
  "update_hex v =
     (case v of
        JStr s \<Rightarrow> if even (length (utf16 s)) then Inr (hex_text s) else Inl TypeError
      | JBytes b \<Rightarrow> Inr b
      | _ \<Rightarrow> Inl TypeError)"

definition decryptPrivateKey :: "lib \<Rightarrow> jsval \<Rightarrow> ustring \<Rightarrow> error + ustring" where
  "decryptPrivateKey L encryptedData password =
     bind (get_prop encryptedData ''salt'') (\<lambda>salt.
     bind (get_prop encryptedData ''iv'') (\<lambda>iv.
     bind (get_prop encryptedData ''authTag'') (\<lambda>authTag.
     bind (get_prop encryptedData ''encrypted'') (\<lambda>encrypted.
     bind (from_hex salt) (\<lambda>saltBytes.
       let key = pbkdf2Sync L (utf8_encode password) saltBytes 100000 32 in
     bind (from_hex iv) (\<lambda>ivBytes.
     bind (createDecipheriv AES_256_GCM key ivBytes) (\<lambda>decipher.
     bind (from_hex authTag) (\<lambda>tagBytes.
     bind (setAuthTag decipher tagBytes) (\<lambda>decipher'.
     bind (update_hex encrypted) (\<lambda>data.
       let (decipher'', out) = decipher_update L decipher' data in
     bind (decipher_final L decipher'') (\<lambda>rest.
       Inr (utf8_decode (out @ rest)))))))))))))"

definition verifyKeyPair :: "lib \<Rightarrow> jsval \<Rightarrow> jsval \<Rightarrow> error + bool" where
  "verifyKeyPair L publicKey privateKey =
     try_catch
       (bind (base64_decode L privateKey) (\<lambda>privateKeyBytes.
        bind (x25519_getPublicKey L privateKeyBytes) (\<lambda>derived.
          Inr (JStr (base64_encode L derived) = publicKey))))
       (\<lambda>e. Inr False)"

record key_pair =
  publicKey :: ustring
  privateKey :: ustring

definition generateKeyPair :: "lib \<Rightarrow> bytes \<Rightarrow> error + key_pair" where
  "generateKeyPair L privateKeyBytes =
     bind (x25519_getPublicKey L privateKeyBytes) (\<lambda>publicKeyBytes.
       Inr \<lparr>publicKey = base64_encode L publicKeyBytes,
            privateKey = base64_encode L privateKeyBytes\<rparr>)"

text \<open>
  The file system is a map from a directory and a file name to the text of the file;
  \<open>saveKeys\<close> writes two files into \<open>outputDir\<close> and returns their paths. Creating the
  directory is left out.
\<close>

type_synonym path = "string \<times> string"
type_synonym files = "path \<rightharpoonup> ustring"

definition saveKeys ::
  "lib \<Rightarrow> bytes \<Rightarrow> bytes \<Rightarrow> key_pair \<Rightarrow> ustring \<Rightarrow> string \<Rightarrow> files \<Rightarrow> error + (path \<times> path) \<times> files" where
  "saveKeys L salt iv keyPair password outputDir fs =
     bind (encryptPrivateKey L salt iv (privateKey keyPair) password) (\<lambda>encryptedPrivateKey.
       let fs' = fs((outputDir, ''public-key.txt'') \<mapsto> publicKey keyPair);
           fs'' = fs'((outputDir, ''private-key.json'') \<mapsto> json_stringify L 2 encryptedPrivateKey)
       in Inr (((outputDir, ''public-key.txt''), (outputDir, ''private-key.json'')), fs''))"

section \<open>What the code relies on in its libraries\<close>

text \<open>
  Decoding an encoded buffer gives the buffer back; a private key of 32 bytes has a public
  key of 32 bytes; both sides of a Diffie-Hellman exchange get the same secret of 32
  bytes; a tag has 16 bytes; PBKDF2 returns as many bytes as it is asked for.
\<close>

definition base64_ok :: "lib \<Rightarrow> bool" where
  "base64_ok L = (\<forall>bs. base64_decode L (JStr (base64_encode L bs)) = Inr bs)"

definition x25519_ok :: "lib \<Rightarrow> bool" where
  "x25519_ok L =
     ((\<forall>sk. length sk = 32 \<longrightarrow> (\<exists>pk. x25519_getPublicKey L sk = Inr pk \<and> length pk = 32)) \<and>
      (\<forall>a b pa pb. x25519_getPublicKey L a = Inr pa \<and> x25519_getPublicKey L b = Inr pb \<longrightarrow>
         (\<exists>k. x25519_getSharedSecret L a pb = Inr k \<and> x25519_getSharedSecret L b pa = Inr k \<and>
              length k = 32)))"

definition aead_ok :: "lib \<Rightarrow> bool" where
  "aead_ok L = (\<forall>alg key iv c. length (auth_tag L alg key iv c) = 16)"

definition kdf_ok :: "lib \<Rightarrow> bool" where
  "kdf_ok L = (\<forall>p s c n. length (pbkdf2Sync L p s c n) = n)"

subsection \<open>PBKDF2 with HMAC-SHA-512, as RFC 8018 and RFC 2104 define it\<close>

text \<open>
  \<open>crypto.pbkdf2Sync(password, salt, iterations, keylen, 'sha512')\<close> over a hash function
  \<open>H\<close> with blocks of 128 bytes and digests of 64 bytes. HMAC hashes a key longer than a
  block and fills a shorter one with zero bytes up to the block.
\<close>

definition hmac_key :: "(bytes \<Rightarrow> bytes) \<Rightarrow> bytes \<Rightarrow> bytes" where
  "hmac_key H k = (let k' = (if 128 < length k then H k else k) in k' @ replicate (128 - length k') 0)"

definition hmac :: "(bytes \<Rightarrow> bytes) \<Rightarrow> bytes \<Rightarrow> bytes \<Rightarrow> bytes" where
  "hmac H k m =
     H (map (\<lambda>b. b XOR 0x5C) (hmac_key H k) @ H (map (\<lambda>b. b XOR 0x36) (hmac_key H k) @ m))"

definition be32 :: "nat \<Rightarrow> bytes" where
  "be32 i = [byte_of (i div 16777216), byte_of (i div 65536), byte_of (i div 256), byte_of i]"

fun pbkdf2_rounds :: "(bytes \<Rightarrow> bytes) \<Rightarrow> bytes \<Rightarrow> nat \<Rightarrow> bytes \<Rightarrow> bytes \<Rightarrow> bytes" where
  "pbkdf2_rounds H p 0 u t = t"
| "pbkdf2_rounds H p (Suc n) u t = (let u' = hmac H p u in pbkdf2_rounds H p n u' (xor_bytes t u'))"

definition pbkdf2_block :: "(bytes \<Rightarrow> bytes) \<Rightarrow> bytes \<Rightarrow> bytes \<Rightarrow> nat \<Rightarrow> nat \<Rightarrow> bytes" where
  "pbkdf2_block H p s c i = (let u1 = hmac H p (s @ be32 i) in pbkdf2_rounds H p (c - 1) u1 u1)"

definition pbkdf2_hmac :: "(bytes \<Rightarrow> bytes) \<Rightarrow> bytes \<Rightarrow> bytes \<Rightarrow> nat \<Rightarrow> nat \<Rightarrow> bytes" where
  "pbkdf2_hmac H p s c keylen =
     take keylen (concat (map (pbkdf2_block H p s c) [1..<Suc ((keylen + 63) div 64)]))"

section \<open>A small instance of the libraries, to run the model\<close>

text \<open>
  Standard Base64 with padding, the encoding of both codecs, and a strict decoder, which
  throws on every text but the canonical ones; on those both codecs agree. The decoder of
  \<open>Buffer\<close>, which throws on no text, follows below.
\<close>

definition b64_char :: "nat \<Rightarrow> nat" where
  "b64_char n =
     (if n < 26 then 65 + n else if n < 52 then 71 + n else if n < 62 then n - 4
      else if n = 62 then 43 else 47)"

definition b64_value :: "nat \<Rightarrow> nat option" where
  "b64_value c =
     (if 65 \<le> c \<and> c \<le> 90 then Some (c - 65)
      else if 97 \<le> c \<and> c \<le> 122 then Some (c - 71)
      else if 48 \<le> c \<and> c \<le> 57 then Some (c + 4)
      else if c = 43 then Some 62
      else if c = 47 then Some 63
      else None)"

fun b64_encode_nat :: "nat list \<Rightarrow> ustring" where
  "b64_encode_nat (a # b # c # rest) =
     b64_char (a div 4) # b64_char ((a mod 4) * 16 + b div 16) #
     b64_char ((b mod 16) * 4 + c div 64) # b64_char (c mod 64) # b64_encode_nat rest"
| "b64_encode_nat [a, b] =
     [b64_char (a div 4), b64_char ((a mod 4) * 16 + b div 16), b64_char ((b mod 16) * 4), 61]"
| "b64_encode_nat [a] = [b64_char (a div 4), b64_char ((a mod 4) * 16), 61, 61]"
| "b64_encode_nat [] = []"

definition b64_encode :: "bytes \<Rightarrow> ustring" where
  "b64_encode bs = b64_encode_nat (map unat bs)"

fun b64_decode_nat :: "ustring \<Rightarrow> nat list option" where
  "b64_decode_nat (c0 # c1 # c2 # c3 # rest) =
     (case (b64_value c0, b64_value c1) of
        (Some s0, Some s1) \<Rightarrow>
          if rest = [] \<and> c2 = 61 \<and> c3 = 61 then
            (if s1 mod 16 = 0 then Some [s0 * 4 + s1 div 16] else None)
          else
            (case b64_value c2 of
               None \<Rightarrow> None
             | Some s2 \<Rightarrow>
                 if rest = [] \<and> c3 = 61 then
                   (if s2 mod 4 = 0 then Some [s0 * 4 + s1 div 16, (s1 mod 16) * 16 + s2 div 4]
                    else None)
                 else
                   (case b64_value c3 of
                      None \<Rightarrow> None
                    | Some s3 \<Rightarrow>
                        map_option
                          (\<lambda>r. (s0 * 4 + s1 div 16) # ((s1 mod 16) * 16 + s2 div 4) #
                                ((s2 mod 4) * 64 + s3) # r)
                          (b64_decode_nat rest)))
      | _ \<Rightarrow> None)"
| "b64_decode_nat [] = Some []"
| "b64_decode_nat _ = None"

definition b64_decode :: "jsval \<Rightarrow> error + bytes" where
  "b64_decode v =
     (case v of
        JStr s \<Rightarrow> (case b64_decode_nat s of None \<Rightarrow> Inl DecodeError | Some ns \<Rightarrow> Inr (map byte_of ns))
      | _ \<Rightarrow> Inl TypeError)"

text \<open>
  \<open>Buffer.from(s, 'base64')\<close>, the decoder behind \<open>base64Decode\<close> in \<open>keygen.js\<close> and in
  the second copy of the encryption module. It skips what is in neither the Base64 nor the
  URL-safe alphabet, stops at the first \<open>=\<close>, and turns the sextets it has read into bytes;
  the bits left over are dropped. It does not throw on a string.
\<close>

definition buffer_b64_value :: "nat \<Rightarrow> nat option" where
  "buffer_b64_value c = (if c = 45 then Some 62 else if c = 95 then Some 63 else b64_value c)"

fun sextet_bytes :: "nat list \<Rightarrow> nat list" where
  "sextet_bytes (s0 # s1 # s2 # s3 # rest) =
     (s0 * 4 + s1 div 16) # ((s1 mod 16) * 16 + s2 div 4) # ((s2 mod 4) * 64 + s3) #
     sextet_bytes rest"
| "sextet_bytes [s0, s1, s2] = [s0 * 4 + s1 div 16, (s1 mod 16) * 16 + s2 div 4]"
| "sextet_bytes [s0, s1] = [s0 * 4 + s1 div 16]"
| "sextet_bytes _ = []"

definition sextets :: "nat list \<Rightarrow> nat list" where
  "sextets cs = List.map_filter buffer_b64_value (takeWhile (\<lambda>c. c \<noteq> 61) cs)"

definition buffer_base64 :: "ustring \<Rightarrow> bytes" where
  "buffer_base64 s = map byte_of (sextet_bytes (sextets (low_bytes s)))"

text \<open>
  Stand-ins for the cryptography, with the laws above: a commutative product in place of
  the curve, sums in place of key stream, tag, key derivation and hash.
\<close>

definition small_mult :: "bytes \<Rightarrow> bytes \<Rightarrow> bytes" where
  "small_mult a p = map (\<lambda>(x, y). x * y) (zip a p)"

definition small_getPublicKey :: "bytes \<Rightarrow> error + bytes" where
  "small_getPublicKey sk =
     (if length sk = 32 then Inr (small_mult sk (replicate 32 3)) else Inl InvalidKey)"

definition small_getSharedSecret :: "bytes \<Rightarrow> bytes \<Rightarrow> error + bytes" where
  "small_getSharedSecret sk pk =
     (if length sk = 32 \<and> length pk = 32 then Inr (small_mult sk pk) else Inl InvalidKey)"

definition small_key_stream :: "cipher_alg \<Rightarrow> bytes \<Rightarrow> bytes \<Rightarrow> nat \<Rightarrow> byte" where
  "small_key_stream alg key iv i = sum_list key + sum_list iv + byte_of i"

definition small_auth_tag :: "cipher_alg \<Rightarrow> bytes \<Rightarrow> bytes \<Rightarrow> bytes \<Rightarrow> bytes" where
  "small_auth_tag alg key iv c =
     map (\<lambda>j. sum_list (take 1 key) + 3 * sum_list iv + 5 * sum_list c + byte_of (length c) + byte_of j)
       [0..<16]"

definition small_pbkdf2 :: "bytes \<Rightarrow> bytes \<Rightarrow> nat \<Rightarrow> nat \<Rightarrow> bytes" where
  "small_pbkdf2 p s c n = map (\<lambda>j. sum_list p + 7 * sum_list s + byte_of j) [0..<n]"

definition small_hash :: "bytes \<Rightarrow> bytes" where
  "small_hash m = map (\<lambda>j. sum_list m + byte_of j) [0..<64]"

text \<open>\<open>JSON.parse\<close> on the two texts the examples use, \<open>{}\<close> and \<open>{"k":"v"}\<close>.\<close>

fun json_string :: "ustring \<Rightarrow> (ustring \<times> ustring) option" where
  "json_string [] = None"
| "json_string (c # cs) =
     (if c = 34 then Some ([], cs)
      else if c = 92 \<or> c < 32 then None
      else map_option (\<lambda>(s, r). (c # s, r)) (json_string cs))"

definition small_json_parse :: "ustring \<Rightarrow> error + jsval" where
  "small_json_parse s =
     (if s = [123, 125] then Inr (JObj [])
      else
        (case s of
           a # b # rest \<Rightarrow>
             if a = 123 \<and> b = 34 then
               (case json_string rest of
                  Some (k, c # d # rest') \<Rightarrow>
                    if c = 58 \<and> d = 34 then
                      (case json_string rest' of
                         Some (v, [e]) \<Rightarrow>
                           if e = 125 then Inr (JObj [(map char_of k, JStr v)]) else Inl SyntaxError
                       | _ \<Rightarrow> Inl SyntaxError)
                    else Inl SyntaxError
                | _ \<Rightarrow> Inl SyntaxError)
             else Inl SyntaxError
         | _ \<Rightarrow> Inl SyntaxError))"

text \<open>
  \<open>JSON.stringify\<close> on an object whose values are strings of plain characters, booleans
  or \<open>null\<close>: one member per line behind the indentation, or no white space at all.
\<close>

fun json_value :: "jsval \<Rightarrow> ustring" where
  "json_value (JStr v) = [34] @ v @ [34]"
| "json_value (JBool b) = (if b then ascii ''true'' else ascii ''false'')"
| "json_value v = ascii ''null''"

definition json_member :: "nat \<Rightarrow> string \<times> jsval \<Rightarrow> ustring" where
  "json_member indent m =
     replicate indent 32 @ [34] @ ascii (fst m) @ [34, 58] @ (if indent = 0 then [] else [32]) @
     json_value (snd m)"

fun json_members :: "nat \<Rightarrow> (string \<times> jsval) list \<Rightarrow> ustring" where
  "json_members indent [] = []"
| "json_members indent [m] = json_member indent m"
| "json_members indent (m # ms) =
     json_member indent m @ [44] @ (if indent = 0 then [] else [10]) @ json_members indent ms"

definition small_json_stringify :: "nat \<Rightarrow> jsval \<Rightarrow> ustring" where
  "small_json_stringify indent v =
     (case v of
        JObj [] \<Rightarrow> [123, 125]
      | JObj ps \<Rightarrow>
          if indent = 0 then [123] @ json_members indent ps @ [125]
          else [123, 10] @ json_members indent ps @ [10, 125]
      | _ \<Rightarrow> json_value v)"

definition small_error_message :: "error \<Rightarrow> ustring" where
  "small_error_message e =
     (case e of
        AuthenticationFailure \<Rightarrow> ascii ''Unsupported state or unable to authenticate data''
      | InvalidAuthTagLength \<Rightarrow> ascii ''Invalid authentication tag length''
      | InvalidKeyLength \<Rightarrow> ascii ''Invalid key length''
      | InvalidIV \<Rightarrow> ascii ''Invalid initialization vector''
      | SyntaxError \<Rightarrow> ascii ''Unexpected token''
      | _ \<Rightarrow> ascii ''invalid input'')"

definition small_lib :: lib where
  "small_lib =
     \<lparr>base64_encode = b64_encode,
      base64_decode = b64_decode,
      x25519_getPublicKey = small_getPublicKey,
      x25519_getSharedSecret = small_getSharedSecret,
      key_stream = small_key_stream,
      auth_tag = small_auth_tag,
      pbkdf2Sync = small_pbkdf2,
      json_parse = small_json_parse,
      json_stringify = small_json_stringify,
      error_message = small_error_message\<rparr>"

text \<open>The same instance with the Base64 decoder of \<open>Buffer\<close>.\<close>

definition buffer_lib :: lib where
  "buffer_lib = small_lib\<lparr>base64_decode := buffer_from buffer_base64\<rparr>"

text \<open>The same instance with PBKDF2 built from HMAC as the RFCs say.\<close>

definition hmac_lib :: lib where
  "hmac_lib = small_lib\<lparr>pbkdf2Sync := pbkdf2_hmac small_hash\<rparr>"

section \<open>Notions used to state the properties\<close>

text \<open>\<open>undefined\<close> and \<open>null\<close>, the values whose properties cannot be read.\<close>

definition nullish :: "jsval \<Rightarrow> bool" where
  "nullish v = (v = JUndefined \<or> v = JNull)"


text \<open>The elements that \<open>decryptBatch\<close> returns as they are.\<close>

definition unencrypted :: "jsval \<Rightarrow> bool" where
  "unencrypted email =
     (case (get_prop email ''encrypted'', get_prop email ''encryption'') of
        (Inr encrypted, Inr encryption) \<Rightarrow> \<not> truthy encrypted \<or> \<not> truthy encryption
      | _ \<Rightarrow> False)"

text \<open>The public key that \<open>verifyKeyPair\<close> recomputes from the private key, as Base64 text.\<close>

definition derived_public_key :: "lib \<Rightarrow> jsval \<Rightarrow> error + ustring" where
  "derived_public_key L priv =
     bind (base64_decode L priv) (\<lambda>skBytes.
     bind (x25519_getPublicKey L skBytes) (\<lambda>derived. Inr (base64_encode L derived)))"

text \<open>
  A string that \<open>TextEncoder\<close> and \<open>TextDecoder\<close> carry unchanged: Unicode scalar values
  only (no unpaired surrogate), and no byte order mark in front.
\<close>

definition well_formed :: "ustring \<Rightarrow> bool" where
  "well_formed s = (list_all scalar_value s \<and> (case s of [] \<Rightarrow> True | c # cs \<Rightarrow> c \<noteq> 0xFEFF))"

text \<open>What ChaCha20 makes of a plaintext or of a ciphertext under a key and a nonce.\<close>

definition chacha_stream :: "lib \<Rightarrow> bytes \<Rightarrow> bytes \<Rightarrow> nat \<Rightarrow> bytes" where
  "chacha_stream L key nonce n = map (key_stream L ChaCha20_Poly1305 key nonce) [0..<n]"

definition sealed_body :: "lib \<Rightarrow> bytes \<Rightarrow> bytes \<Rightarrow> bytes \<Rightarrow> bytes" where
  "sealed_body L key nonce pt = xor_bytes pt (chacha_stream L key nonce (length pt))"

text \<open>
  Flipping bit \<open>i\<close> of a buffer (bit \<open>i mod 8\<close> of byte \<open>i div 8\<close>), and an envelope in
  which one bit of one Base64 field has been flipped.
\<close>

definition flip_bit :: "nat \<Rightarrow> bytes \<Rightarrow> bytes" where
  "flip_bit i bs = bs[i div 8 := (bs ! (i div 8)) XOR push_bit (i mod 8) 1]"

fun set_field :: "string \<Rightarrow> jsval \<Rightarrow> jsval \<Rightarrow> jsval" where
  "set_field name v (JObj ps) = JObj (put name v ps)"
| "set_field name v other = other"

definition tamper :: "lib \<Rightarrow> string \<Rightarrow> nat \<Rightarrow> jsval \<Rightarrow> error + jsval" where
  "tamper L field i envelope =
     bind (get_prop envelope field) (\<lambda>v.
     bind (base64_decode L v) (\<lambda>bs.
       Inr (set_field field (JStr (base64_encode L (flip_bit i bs))) envelope)))"

text \<open>
  A mail of \<open>encryptBatch\<close> in whose envelope one bit of the ciphertext field has been
  flipped, and the object that the success branch of \<open>decryptBatch\<close> builds.
\<close>

definition tamper_mail :: "lib \<Rightarrow> nat \<Rightarrow> jsval \<Rightarrow> error + jsval" where
  "tamper_mail L i mail =
     bind (get_prop mail ''encryption'') (\<lambda>envelope.
     bind (tamper L ''ciphertext'' i envelope) (\<lambda>envelope'.
       Inr (set_field ''encryption'' envelope' mail)))"

definition decrypted_mail :: "int \<Rightarrow> jsval \<Rightarrow> jsval \<Rightarrow> jsval" where
  "decrypted_mail now email parsed =
     JObj (put ''decryptedAt'' (JNum now)
          (put ''encrypted'' (JBool False)
          (spread (spread [] email) parsed)))"

text \<open>
  The vault: what AES-256-GCM makes of a text under a key and an initialisation vector, and
  the key, the ciphertext and the tag of a blob sealed from a private key and a password.
\<close>

definition vault_body :: "lib \<Rightarrow> bytes \<Rightarrow> bytes \<Rightarrow> bytes \<Rightarrow> bytes" where
  "vault_body L key iv pt = xor_bytes pt (map (key_stream L AES_256_GCM key iv) [0..<length pt])"

definition vault_key :: "lib \<Rightarrow> ustring \<Rightarrow> bytes \<Rightarrow> bytes" where
  "vault_key L password salt = pbkdf2Sync L (utf8_encode password) salt 100000 32"

definition vault_ciphertext :: "lib \<Rightarrow> ustring \<Rightarrow> bytes \<Rightarrow> bytes \<Rightarrow> ustring \<Rightarrow> bytes" where
  "vault_ciphertext L password salt iv key_text =
     vault_body L (vault_key L password salt) iv (utf8_encode key_text)"

definition vault_tag :: "lib \<Rightarrow> ustring \<Rightarrow> bytes \<Rightarrow> bytes \<Rightarrow> bytes \<Rightarrow> bytes" where
  "vault_tag L password salt iv c = auth_tag L AES_256_GCM (vault_key L password salt) iv c"

text \<open>
  The bytes that \<open>decryptPrivateKey\<close> reads from a field of a blob, the key it derives and
  the tag that \<open>decipher.final()\<close> recomputes and compares with the \<open>authTag\<close> field.
\<close>

definition field_bytes :: "jsval \<Rightarrow> string \<Rightarrow> bytes" where
  "field_bytes blob field = (case get_prop blob field of Inr (JStr s) \<Rightarrow> hex_text s | _ \<Rightarrow> [])"

definition derived_key :: "lib \<Rightarrow> jsval \<Rightarrow> ustring \<Rightarrow> bytes" where
  "derived_key L blob password =
     pbkdf2Sync L (utf8_encode password) (field_bytes blob ''salt'') 100000 32"

definition recomputed_tag :: "lib \<Rightarrow> jsval \<Rightarrow> ustring \<Rightarrow> bytes" where
  "recomputed_tag L blob password =
     auth_tag L AES_256_GCM (derived_key L blob password) (field_bytes blob ''iv'')
       (field_bytes blob ''encrypted'')"

text \<open>
  A blob whose four fields are strings, the text of \<open>encrypted\<close> with an even number of
  units: what a blob read from the key file is like.
\<close>

definition has_hex_fields :: "jsval \<Rightarrow> bool" where
  "has_hex_fields blob =
     (list_all (\<lambda>field. case get_prop blob field of Inr (JStr s) \<Rightarrow> True | _ \<Rightarrow> False)
        [''salt'', ''iv'', ''authTag'', ''encrypted''] \<and>
      (case get_prop blob ''encrypted'' of Inr (JStr s) \<Rightarrow> even (length (utf16 s)) | _ \<Rightarrow> False))"



subsection \<open>Example values\<close>



definition plain_mail :: jsval where
  "plain_mail = JObj [(''id'', JStr (ascii ''msg_1'')), (''subject'', JStr (ascii ''hi''))]"

definition flagged_mail :: jsval where
  "flagged_mail = JObj [(''id'', JStr (ascii ''msg_2'')), (''encrypted'', JBool True)]"

definition example_private_bytes :: bytes where
  "example_private_bytes = replicate 32 2"

definition example_private :: jsval where
  "example_private = JStr (b64_encode example_private_bytes)"

definition example_public :: jsval where
  "example_public = JStr (b64_encode (replicate 32 6))"

definition not_base64 :: jsval where
  "not_base64 = JStr (ascii ''!'')"

definition example_tampered_mail :: "error + jsval" where
  "example_tampered_mail =
     bind (encryptBatch_element small_lib (replicate 32 1) (replicate 12 7) 1700000000000
             example_public (JObj [(''subject'', JStr (ascii ''hi''))]))
          (tamper_mail small_lib 130)"

definition example_key_pair_value :: key_pair where
  "example_key_pair_value =
     \<lparr>publicKey = b64_encode (replicate 32 6), privateKey = b64_encode example_private_bytes\<rparr>"

section \<open>Hexadecimal and UTF-8 text decode to what was encoded\<close>

lemma unhex_hex_digit: "d < 16 \<Longrightarrow> unhex (hex_digit d) = Some d"
  by (auto simp: unhex_def hex_digit_def)

lemma hex_decode_encode: "hex_decode (hex_encode bs) = bs"
proof (induction bs)
  case Nil
  then show ?case by (simp add: hex_encode_def)
next
  case (Cons b bs)
  have lo: "unat b mod 16 < 16" by simp
  have hi: "unat b div 16 < 16" using unsigned_less[of b, where 'a=nat] by simp
  have "byte_of (16 * (unat b div 16) + unat b mod 16) = b" by (simp add: byte_of_def)
  with Cons lo hi show ?case
    by (simp add: hex_encode_def unhex_hex_digit)
qed

lemma utf16_ascii: "list_all (\<lambda>c. c < 128) s \<Longrightarrow> utf16 s = s"
  by (induction s) (auto simp: utf16_def utf16_units_def)

lemma low_bytes_ascii: "list_all (\<lambda>c. c < 128) s \<Longrightarrow> low_bytes s = s"
  by (induction s) (auto simp: low_bytes_def utf16_def utf16_units_def)

lemma hex_digit_ascii: "d < 16 \<Longrightarrow> hex_digit d < 128"
  by (simp add: hex_digit_def)

lemma hex_encode_ascii: "list_all (\<lambda>c. c < 128) (hex_encode bs)"
proof (induction bs)
  case Nil
  then show ?case by (simp add: hex_encode_def)
next
  case (Cons b bs)
  have lo: "unat b mod 16 < 16" by simp
  have hi: "unat b div 16 < 16" using unsigned_less[of b, where 'a=nat] by simp
  from Cons show ?case
    by (simp add: hex_encode_def hex_digit_ascii[OF lo] hex_digit_ascii[OF hi])
qed

lemma length_hex_encode: "length (hex_encode bs) = 2 * length bs"
  by (induction bs) (simp_all add: hex_encode_def)

lemma hex_text_encode: "hex_text (hex_encode bs) = bs"
  by (simp add: hex_text_def low_bytes_ascii hex_encode_ascii hex_decode_encode)

lemma even_hex_encode: "even (length (utf16 (hex_encode bs)))"
  by (simp add: utf16_ascii hex_encode_ascii length_hex_encode)

lemma from_hex_JStr [simp]: "from_hex (JStr s) = Inr (hex_text s)"
  by (simp add: from_hex_def buffer_from_def)

lemma update_hex_encode [simp]: "update_hex (JStr (hex_encode bs)) = Inr bs"
  by (simp add: update_hex_def even_hex_encode hex_text_encode)

lemma unat_byte: "x < 256 \<Longrightarrow> unat (byte_of x) = x"
  by (simp add: byte_of_def unat_of_nat)

lemma utf8_run_1: "c < 0x80 \<Longrightarrow> utf8_run utf8_init (utf8_encode_cp c @ bs) = c # utf8_run utf8_init bs"
  by (simp add: utf8_encode_cp_def is_surrogate_def unat_byte utf8_step_def utf8_lead_def utf8_init_def)

lemma utf8_run_2:
  assumes "0x80 \<le> c" "c < 0x800"
  shows "utf8_run utf8_init (utf8_encode_cp c @ bs) = c # utf8_run utf8_init bs"
proof -
  have d: "c div 64 < 32" "2 \<le> c div 64" "c mod 64 < 64" using assms by auto
  have b0: "unat (byte_of (0xC0 + c div 64)) = 0xC0 + c div 64" using d by (simp add: unat_byte)
  have b1: "unat (byte_of (0x80 + c mod 64)) = 0x80 + c mod 64" using d by (simp add: unat_byte)
  have enc: "utf8_encode_cp c = [byte_of (0xC0 + c div 64), byte_of (0x80 + c mod 64)]"
    using assms by (simp add: utf8_encode_cp_def is_surrogate_def)
  show ?thesis unfolding enc using d
    by (simp add: b0 b1 utf8_step_def utf8_lead_def utf8_init_def)
qed

lemma split3:
  fixes c :: nat
  obtains h m l where "c = (h * 64 + m) * 64 + l" "m < 64" "l < 64"
    "h = c div 4096" "m = (c div 64) mod 64" "l = c mod 64"
proof
  show "c = ((c div 4096) * 64 + (c div 64) mod 64) * 64 + c mod 64"
  proof -
    have "c div 4096 = c div 64 div 64" by (simp add: div_mult2_eq)
    then have "(c div 4096) * 64 + (c div 64) mod 64 = c div 64" by simp
    then show ?thesis by simp
  qed
qed simp_all

lemma utf8_run_3:
  assumes "0x800 \<le> c" "c < 0x10000" "\<not> is_surrogate c"
  shows "utf8_run utf8_init (utf8_encode_cp c @ bs) = c # utf8_run utf8_init bs"
proof -
  obtain h m l where c: "c = (h * 64 + m) * 64 + l" and d: "m < 64" "l < 64"
    and eqs: "h = c div 4096" "m = (c div 64) mod 64" "l = c mod 64"
    by (rule split3)
  have c': "c = 4096 * h + 64 * m + l" using c by simp
  have h16: "h < 16" using assms(2) c' by linarith
  have lo: "h = 0 \<Longrightarrow> 32 \<le> m" using assms(1) c' d by linarith
  have hi: "h = 13 \<Longrightarrow> m < 32" using assms(2,3) c' d unfolding is_surrogate_def by linarith
  have b0: "unat (byte_of (0xE0 + h)) = 0xE0 + h" using h16 by (simp add: unat_byte)
  have b1: "unat (byte_of (0x80 + m)) = 0x80 + m" using d by (simp add: unat_byte)
  have b2: "unat (byte_of (0x80 + l)) = 0x80 + l" using d by (simp add: unat_byte)
  have enc: "utf8_encode_cp c = [byte_of (0xE0 + h), byte_of (0x80 + m), byte_of (0x80 + l)]"
    using assms by (simp add: utf8_encode_cp_def eqs)
  have "utf8_run utf8_init ([byte_of (0xE0 + h), byte_of (0x80 + m), byte_of (0x80 + l)] @ bs)
      = ((h * 64 + m) * 64 + l) # utf8_run utf8_init bs"
    using h16 d lo hi by (auto simp: b0 b1 b2 utf8_step_def utf8_lead_def utf8_init_def)
  then show ?thesis using enc c by simp
qed

lemma split4:
  fixes c :: nat
  obtains h m1 m l where "c = ((h * 64 + m1) * 64 + m) * 64 + l" "m1 < 64" "m < 64" "l < 64"
    "h = c div 262144" "m1 = (c div 4096) mod 64" "m = (c div 64) mod 64" "l = c mod 64"
proof
  show "c = (((c div 262144) * 64 + (c div 4096) mod 64) * 64 + (c div 64) mod 64) * 64 + c mod 64"
  proof -
    have "c div 262144 = c div 4096 div 64" by (simp add: div_mult2_eq)
    then have a: "(c div 262144) * 64 + (c div 4096) mod 64 = c div 4096" by simp
    have "c div 4096 = c div 64 div 64" by (simp add: div_mult2_eq)
    then have "(c div 4096) * 64 + (c div 64) mod 64 = c div 64" by simp
    with a show ?thesis by simp
  qed
qed simp_all

lemma utf8_run_4:
  assumes "0x10000 \<le> c" "c < 0x110000"
  shows "utf8_run utf8_init (utf8_encode_cp c @ bs) = c # utf8_run utf8_init bs"
proof -
  obtain h m1 m l where c: "c = ((h * 64 + m1) * 64 + m) * 64 + l"
    and d: "m1 < 64" "m < 64" "l < 64"
    and eqs: "h = c div 262144" "m1 = (c div 4096) mod 64" "m = (c div 64) mod 64" "l = c mod 64"
    by (rule split4)
  have c': "c = 262144 * h + 4096 * m1 + 64 * m + l" using c by simp
  have h5: "h < 5" using assms(2) c' by linarith
  have lo: "h = 0 \<Longrightarrow> 16 \<le> m1" using assms(1) c' d by linarith
  have hi: "h = 4 \<Longrightarrow> m1 < 16" using assms(2) c' d by linarith
  have ns: "\<not> is_surrogate c" using assms by (simp add: is_surrogate_def)
  have b0: "unat (byte_of (0xF0 + h)) = 0xF0 + h" using h5 by (simp add: unat_byte)
  have b1: "unat (byte_of (0x80 + m1)) = 0x80 + m1" using d by (simp add: unat_byte)
  have b2: "unat (byte_of (0x80 + m)) = 0x80 + m" using d by (simp add: unat_byte)
  have b3: "unat (byte_of (0x80 + l)) = 0x80 + l" using d by (simp add: unat_byte)
  have enc: "utf8_encode_cp c =
      [byte_of (0xF0 + h), byte_of (0x80 + m1), byte_of (0x80 + m), byte_of (0x80 + l)]"
    using assms ns by (simp add: utf8_encode_cp_def eqs)
  have "utf8_run utf8_init
      ([byte_of (0xF0 + h), byte_of (0x80 + m1), byte_of (0x80 + m), byte_of (0x80 + l)] @ bs)
      = (((h * 64 + m1) * 64 + m) * 64 + l) # utf8_run utf8_init bs"
    using h5 d lo hi by (auto simp: b0 b1 b2 b3 utf8_step_def utf8_lead_def utf8_init_def)
  then show ?thesis using enc c by simp
qed

lemma utf8_run_cp:
  "scalar_value c \<Longrightarrow> utf8_run utf8_init (utf8_encode_cp c @ bs) = c # utf8_run utf8_init bs"
proof -
  assume sv: "scalar_value c"
  consider "c < 0x80" | "0x80 \<le> c" "c < 0x800" | "0x800 \<le> c" "c < 0x10000" | "0x10000 \<le> c"
    by linarith
  then show ?thesis
  proof cases
    case 1 then show ?thesis by (rule utf8_run_1)
  next
    case 2 then show ?thesis by (rule utf8_run_2)
  next
    case 3 with sv show ?thesis by (simp add: utf8_run_3 scalar_value_def)
  next
    case 4 with sv show ?thesis by (simp add: utf8_run_4 scalar_value_def)
  qed
qed

lemma utf8_decode_encode:
  "\<forall>c \<in> set s. scalar_value c \<Longrightarrow> utf8_decode (utf8_encode s) = s"
proof (induction s)
  case Nil
  show ?case by (simp add: utf8_decode_def utf8_encode_def utf8_init_def)
next
  case (Cons c s)
  then show ?case by (simp add: utf8_decode_def utf8_encode_def utf8_run_cp)
qed

section \<open>The small instance has the laws\<close>

lemma b64_value_char: "n < 64 \<Longrightarrow> b64_value (b64_char n) = Some n"
  by (auto simp: b64_value_def b64_char_def)

lemma b64_char_not_pad: "n < 64 \<Longrightarrow> b64_char n \<noteq> 61"
  by (auto simp: b64_char_def)

lemma b64_decode_group:
  assumes "s0 < 64" "s1 < 64" "s2 < 64" "s3 < 64"
  shows "b64_decode_nat (b64_char s0 # b64_char s1 # b64_char s2 # b64_char s3 # R) =
    map_option (\<lambda>r. (s0 * 4 + s1 div 16) # ((s1 mod 16) * 16 + s2 div 4) # ((s2 mod 4) * 64 + s3) # r)
      (b64_decode_nat R)"
  using assms by (simp add: b64_value_char b64_char_not_pad)

lemma b64_decode_pad1:
  assumes "s0 < 64" "s1 < 64" "s2 < 64" "s2 mod 4 = 0"
  shows "b64_decode_nat [b64_char s0, b64_char s1, b64_char s2, 61] =
    Some [s0 * 4 + s1 div 16, (s1 mod 16) * 16 + s2 div 4]"
  using assms by (simp add: b64_value_char b64_char_not_pad)

lemma b64_decode_pad2:
  assumes "s0 < 64" "s1 < 64" "s1 mod 16 = 0"
  shows "b64_decode_nat [b64_char s0, b64_char s1, 61, 61] = Some [s0 * 4 + s1 div 16]"
  using assms by (simp add: b64_value_char)

lemma b64_decode_encode_nat:
  "\<forall>x \<in> set ns. x < 256 \<Longrightarrow> b64_decode_nat (b64_encode_nat ns) = Some ns"
proof (induction ns rule: b64_encode_nat.induct)
  case (1 a b c rest)
  then have r: "a < 256" "b < 256" "c < 256" by auto
  define s0 s1 s2 s3 where
    s: "s0 = a div 4" "s1 = (a mod 4) * 16 + b div 16" "s2 = (b mod 16) * 4 + c div 64" "s3 = c mod 64"
  have bound: "s0 < 64" "s1 < 64" "s2 < 64" "s3 < 64" using r unfolding s by auto
  have e: "s0 * 4 + s1 div 16 = a" "(s1 mod 16) * 16 + s2 div 4 = b" "(s2 mod 4) * 64 + s3 = c"
    using r unfolding s by simp_all
  have enc: "b64_encode_nat (a # b # c # rest) =
      b64_char s0 # b64_char s1 # b64_char s2 # b64_char s3 # b64_encode_nat rest"
    unfolding s by simp
  from 1 have ih: "b64_decode_nat (b64_encode_nat rest) = Some rest" by simp
  show ?case unfolding enc b64_decode_group[OF bound] ih e by simp
next
  case (2 a b)
  then have r: "a < 256" "b < 256" by auto
  define s0 s1 s2 where
    s: "s0 = a div 4" "s1 = (a mod 4) * 16 + b div 16" "s2 = (b mod 16) * 4"
  have bound: "s0 < 64" "s1 < 64" "s2 < 64" "s2 mod 4 = 0" using r unfolding s by auto
  have e: "s0 * 4 + s1 div 16 = a" "(s1 mod 16) * 16 + s2 div 4 = b"
    using r unfolding s by simp_all
  have enc: "b64_encode_nat [a, b] = [b64_char s0, b64_char s1, b64_char s2, 61]"
    unfolding s by simp
  show ?case unfolding enc b64_decode_pad1[OF bound] e by simp
next
  case (3 a)
  then have r: "a < 256" by auto
  define s0 s1 where s: "s0 = a div 4" "s1 = (a mod 4) * 16"
  have bound: "s0 < 64" "s1 < 64" "s1 mod 16 = 0" using r unfolding s by auto
  have e: "s0 * 4 + s1 div 16 = a" using r unfolding s by simp
  have enc: "b64_encode_nat [a] = [b64_char s0, b64_char s1, 61, 61]"
    unfolding s by simp
  show ?case unfolding enc b64_decode_pad2[OF bound] e by simp
next
  case 4
  then show ?case by simp
qed

lemma b64_decode_encode: "b64_decode (JStr (b64_encode bs)) = Inr bs"
proof -
  have "\<forall>x \<in> set (map unat bs). x < 256"
    using unsigned_less[where 'a=nat and 'b=8] by auto
  then have "b64_decode_nat (b64_encode_nat (map unat bs)) = Some (map unat bs)"
    by (rule b64_decode_encode_nat)
  then show ?thesis
    by (simp add: b64_decode_def b64_encode_def byte_of_def comp_def)
qed

text \<open>The decoder of \<open>Buffer\<close> decodes what was encoded, too.\<close>

lemma b64_char_ascii: "b64_char n < 128"
  by (auto simp: b64_char_def)

lemma buffer_value_char: "n < 64 \<Longrightarrow> buffer_b64_value (b64_char n) = Some n"
  by (auto simp: buffer_b64_value_def b64_value_def b64_char_def)

lemma b64_encode_nat_ascii: "list_all (\<lambda>c. c < 128) (b64_encode_nat ns)"
  by (induction ns rule: b64_encode_nat.induct) (simp_all add: b64_char_ascii)

lemma sextets_char: "n < 64 \<Longrightarrow> sextets (b64_char n # cs) = n # sextets cs"
  by (simp add: sextets_def b64_char_not_pad buffer_value_char)

lemma sextets_pad: "sextets (61 # cs) = []"
  by (simp add: sextets_def)

lemma sextets_nil: "sextets [] = []"
  by (simp add: sextets_def)

lemma buffer_sextets_encode:
  "\<forall>x \<in> set ns. x < 256 \<Longrightarrow> sextet_bytes (sextets (b64_encode_nat ns)) = ns"
proof (induction ns rule: b64_encode_nat.induct)
  case (1 a b c rest)
  then have r: "a < 256" "b < 256" "c < 256" by auto
  define s0 s1 s2 s3 where
    s: "s0 = a div 4" "s1 = (a mod 4) * 16 + b div 16" "s2 = (b mod 16) * 4 + c div 64" "s3 = c mod 64"
  have bound: "s0 < 64" "s1 < 64" "s2 < 64" "s3 < 64" using r unfolding s by auto
  have e: "s0 * 4 + s1 div 16 = a" "(s1 mod 16) * 16 + s2 div 4 = b" "(s2 mod 4) * 64 + s3 = c"
    using r unfolding s by simp_all
  have enc: "b64_encode_nat (a # b # c # rest) =
      b64_char s0 # b64_char s1 # b64_char s2 # b64_char s3 # b64_encode_nat rest"
    unfolding s by simp
  from 1 have ih: "sextet_bytes (sextets (b64_encode_nat rest)) = rest" by simp
  show ?case unfolding enc using bound by (simp add: sextets_char ih e)
next
  case (2 a b)
  then have r: "a < 256" "b < 256" by auto
  define s0 s1 s2 where
    s: "s0 = a div 4" "s1 = (a mod 4) * 16 + b div 16" "s2 = (b mod 16) * 4"
  have bound: "s0 < 64" "s1 < 64" "s2 < 64" using r unfolding s by auto
  have e: "s0 * 4 + s1 div 16 = a" "(s1 mod 16) * 16 + s2 div 4 = b"
    using r unfolding s by simp_all
  have enc: "b64_encode_nat [a, b] = [b64_char s0, b64_char s1, b64_char s2, 61]"
    unfolding s by simp
  show ?case unfolding enc using bound by (simp add: sextets_char sextets_pad e)
next
  case (3 a)
  then have r: "a < 256" by auto
  define s0 s1 where s: "s0 = a div 4" "s1 = (a mod 4) * 16"
  have bound: "s0 < 64" "s1 < 64" using r unfolding s by auto
  have e: "s0 * 4 + s1 div 16 = a" using r unfolding s by simp
  have enc: "b64_encode_nat [a] = [b64_char s0, b64_char s1, 61, 61]"
    unfolding s by simp
  show ?case unfolding enc using bound by (simp add: sextets_char sextets_pad e)
next
  case 4
  then show ?case by (simp add: sextets_nil)
qed

lemma buffer_base64_encode: "buffer_base64 (b64_encode bs) = bs"
proof -
  have lt: "\<forall>x \<in> set (map unat bs). x < 256"
    using unsigned_less[where 'a=nat and 'b=8] by auto
  have "low_bytes (b64_encode bs) = b64_encode bs"
    by (simp add: low_bytes_ascii b64_encode_def b64_encode_nat_ascii)
  then have "buffer_base64 (b64_encode bs) = map byte_of (map unat bs)"
    unfolding buffer_base64_def using buffer_sextets_encode[OF lt]
    by (simp add: b64_encode_def)
  then show ?thesis by (simp add: byte_of_def comp_def)
qed

lemma buffer_lib_base64_ok: "base64_ok buffer_lib"
  by (simp add: base64_ok_def buffer_lib_def small_lib_def buffer_from_def buffer_base64_encode)

lemma small_mult_comm3:
  "length a = n \<Longrightarrow> length b = n \<Longrightarrow> length g = n \<Longrightarrow>
   small_mult a (small_mult b g) = small_mult b (small_mult a g)"
proof (induction a arbitrary: b g n)
  case Nil
  then show ?case by (simp add: small_mult_def)
next
  case (Cons x xs)
  then obtain y ys z zs where "b = y # ys" "g = z # zs"
    by (metis length_Suc_conv)
  with Cons show ?case
    using Cons.IH[of "length xs" ys zs] by (simp add: small_mult_def mult.left_commute)
qed

lemma length_small_mult: "length (small_mult a b) = min (length a) (length b)"
  by (simp add: small_mult_def)

lemma small_lib_base64_ok: "base64_ok small_lib"
  by (simp add: base64_ok_def small_lib_def b64_decode_encode)

lemma small_lib_x25519_ok: "x25519_ok small_lib"
  unfolding x25519_ok_def
  by (auto simp: small_lib_def small_getPublicKey_def small_getSharedSecret_def
      length_small_mult small_mult_comm3[where n=32] split: if_splits)

lemma small_lib_aead_ok: "aead_ok small_lib"
  by (simp add: aead_ok_def small_lib_def small_auth_tag_def)

lemma small_lib_kdf_ok: "kdf_ok small_lib"
  by (simp add: kdf_ok_def small_lib_def small_pbkdf2_def)

section \<open>Objects and lists of results\<close>

lemma array_index_no_digit:
  "\<not> (48 \<le> (of_char c :: nat) \<and> of_char c \<le> (57 :: nat)) \<Longrightarrow> array_index (c # cs) = None"
  by (auto simp: array_index_def)

lemma key_before_name [simp]:
  "\<not> (48 \<le> (of_char c :: nat) \<and> of_char c \<le> (57 :: nat)) \<Longrightarrow> key_before (c # cs) k' = False"
  by (simp add: key_before_def array_index_no_digit)

lemma get_prop_Inr: "\<not> nullish v \<Longrightarrow> \<exists>x. get_prop v name = Inr x"
  by (cases v) (simp_all add: nullish_def)

lemma get_prop_Inl: "nullish v \<Longrightarrow> get_prop v name = Inl TypeError"
  by (auto simp: nullish_def)

lemma map_result_Inr_iff:
  "map_result f xs = Inr ys \<longleftrightarrow>
     length ys = length xs \<and> (\<forall>i < length xs. f (xs ! i) = Inr (ys ! i))"
proof (induction xs arbitrary: ys)
  case Nil
  then show ?case by auto
next
  case (Cons x xs)
  show ?case
  proof (cases ys)
    case Nil
    then show ?thesis by (auto simp: bind_def split: sum.splits)
  next
    case (Cons y ys')
    have "(\<forall>i < Suc (length xs). f ((x # xs) ! i) = Inr ((y # ys') ! i)) \<longleftrightarrow>
          f x = Inr y \<and> (\<forall>i < length xs. f (xs ! i) = Inr (ys' ! i))"
      by (auto simp: nth_Cons split: nat.splits) 
    then show ?thesis using Cons Cons.IH[of ys']
      by (auto simp: bind_def split: sum.splits)
  qed
qed

lemma map_result_total:
  "\<forall>x \<in> set xs. \<exists>y. f x = Inr y \<Longrightarrow> \<exists>ys. map_result f xs = Inr ys"
  by (induction xs) (auto simp: bind_def)

section \<open>Encrypting and decrypting an envelope\<close>

lemma bind_Inr [simp]: "bind (Inr x) f = f x"
  by (simp add: bind_def)

lemma bind_Inl [simp]: "bind (Inl e) f = Inl e"
  by (simp add: bind_def)

lemma length_xor_bytes [simp]: "length (xor_bytes xs ys) = min (length xs) (length ys)"
  by (simp add: xor_bytes_def)

lemma xor_bytes_twice: "length xs \<le> length ks \<Longrightarrow> xor_bytes (xor_bytes xs ks) ks = xs"
proof (induction xs arbitrary: ks)
  case Nil
  then show ?case by (simp add: xor_bytes_def)
next
  case (Cons x xs)
  then obtain k ks' where "ks = k # ks'" by (cases ks) auto
  with Cons show ?case by (simp add: xor_bytes_def xor.assoc)
qed

lemma length_chacha_stream [simp]: "length (chacha_stream L key nonce n) = n"
  by (simp add: chacha_stream_def)

lemma sealed_body_twice: "sealed_body L key nonce (sealed_body L key nonce pt) = pt"
  by (simp add: sealed_body_def xor_bytes_twice)

lemma length_sealed_body [simp]: "length (sealed_body L key nonce pt) = length pt"
  by (simp add: sealed_body_def)

lemma encrypt_result:
  assumes "base64_decode L pk64 = Inr pk"
    and "x25519_getPublicKey L esk = Inr epk"
    and "x25519_getSharedSecret L esk pk = Inr k"
    and "length k = 32" and "length nonce = 12"
  shows "encrypt L esk nonce now pk64 P =
     Inr (JObj
       [(''keyId'', JStr (base64_encode L (take 8 pk))),
        (''ephemeralPublicKey'', JStr (base64_encode L epk)),
        (''nonce'', JStr (base64_encode L nonce)),
        (''ciphertext'', JStr (base64_encode L
           (sealed_body L k nonce (plaintext_bytes P) @
            auth_tag L ChaCha20_Poly1305 k nonce (sealed_body L k nonce (plaintext_bytes P))))),
        (''timestamp'', JNum now)])"
  using assms
  by (simp add: encrypt_def createCipheriv_def iv_ok_def cipher_update_def stream_from_def
      cipher_final_def getAuthTag_def sealed_body_def chacha_stream_def Let_def)

lemma decrypt_result:
  assumes "base64_ok L"
    and "base64_decode L sk64 = Inr sk"
    and "get_prop env ''ephemeralPublicKey'' = Inr (JStr (base64_encode L epk))"
    and "get_prop env ''nonce'' = Inr (JStr (base64_encode L nonce))"
    and "get_prop env ''ciphertext'' = Inr (JStr (base64_encode L (body @ tag)))"
    and "x25519_getSharedSecret L sk epk = Inr k"
    and "length k = 32" and "length nonce = 12"
    and "length tag = 16"
  shows "decrypt L sk64 env = Inr (text_decode (sealed_body L k nonce body))"
proof -
  have dec: "\<And>bs. base64_decode L (JStr (base64_encode L bs)) = Inr bs"
    using assms(1) by (simp add: base64_ok_def)
  show ?thesis
    using assms(2-)
    by (simp add: decrypt_def dec createDecipheriv_def createCipheriv_def iv_ok_def setAuthTag_def
        tag_length_ok_def decipher_update_def stream_from_def sealed_body_def chacha_stream_def
        Let_def)
qed


lemma utf8_encode_cp_not_bom:
  assumes "scalar_value c" "c \<noteq> 0xFEFF"
  shows "\<not> (\<exists>rest. utf8_encode_cp c @ bs = 0xEF # 0xBB # 0xBF # rest)"
proof -
  consider "c < 0x80" | "0x80 \<le> c" "c < 0x800" | "0x800 \<le> c" "c < 0x10000" | "0x10000 \<le> c"
    by linarith
  then show ?thesis
  proof cases
    case 1
    then have "unat (byte_of c) \<noteq> unat (0xEF :: byte)" by (simp add: unat_byte)
    then have "byte_of c \<noteq> 0xEF" by auto
    with 1 assms show ?thesis by (simp add: utf8_encode_cp_def scalar_value_def)
  next
    case 2
    then have "c div 64 < 32" by auto
    then have "unat (byte_of (0xC0 + c div 64)) \<noteq> unat (0xEF :: byte)" by (simp add: unat_byte)
    then have "byte_of (0xC0 + c div 64) \<noteq> 0xEF" by auto
    with 2 assms show ?thesis by (simp add: utf8_encode_cp_def scalar_value_def)
  next
    case 3
    obtain h m l where c: "c = (h * 64 + m) * 64 + l" and d: "m < 64" "l < 64"
      and eqs: "h = c div 4096" "m = (c div 64) mod 64" "l = c mod 64"
      by (rule split3)
    have c': "c = 4096 * h + 64 * m + l" using c by simp
    have h16: "h < 16" using 3 c' by linarith
    have enc: "utf8_encode_cp c = [byte_of (0xE0 + h), byte_of (0x80 + m), byte_of (0x80 + l)]"
      using 3 assms by (simp add: utf8_encode_cp_def eqs scalar_value_def)
    have "\<not> (h = 15 \<and> m = 59 \<and> l = 63)" using assms(2) c' by auto
    moreover have "byte_of (0xE0 + h) = 0xEF \<Longrightarrow> h = 15"
      using h16 unat_byte[of "0xE0 + h"] by auto
    moreover have "byte_of (0x80 + m) = 0xBB \<Longrightarrow> m = 59"
      using d unat_byte[of "0x80 + m"] by auto
    moreover have "byte_of (0x80 + l) = 0xBF \<Longrightarrow> l = 63"
      using d unat_byte[of "0x80 + l"] by auto
    ultimately show ?thesis unfolding enc by auto
  next
    case 4
    from assms have "c < 1310720" by (simp add: scalar_value_def)
    then have "c div 262144 < 5" by (simp add: less_mult_imp_div_less)
    then have "unat (byte_of (0xF0 + c div 262144)) \<noteq> unat (0xEF :: byte)" by (simp add: unat_byte)
    then have "byte_of (0xF0 + c div 262144) \<noteq> 0xEF" by auto
    with 4 assms show ?thesis by (simp add: utf8_encode_cp_def scalar_value_def)
  qed
qed

lemma text_decode_utf8_encode:
  assumes "well_formed s"
  shows "text_decode (utf8_encode s) = s"
proof -
  have sv: "\<forall>c \<in> set s. scalar_value c" using assms by (simp add: well_formed_def list_all_iff)
  have "text_decode (utf8_encode s) = utf8_decode (utf8_encode s)"
  proof (cases s)
    case Nil
    then show ?thesis by (simp add: text_decode_def utf8_encode_def)
  next
    case (Cons c cs)
    with assms sv have "scalar_value c" "c \<noteq> 0xFEFF" by (simp_all add: well_formed_def)
    then have "\<not> (\<exists>rest. utf8_encode_cp c @ utf8_encode cs = 0xEF # 0xBB # 0xBF # rest)"
      by (rule utf8_encode_cp_not_bom)
    then show ?thesis using Cons
      by (auto simp: text_decode_def utf8_encode_def split: list.splits)
  qed
  then show ?thesis using sv by (simp add: utf8_decode_encode)
qed

lemma key_agreement:
  assumes "base64_ok L" "x25519_ok L"
    and "generateKeyPair L skBytes = Inr K"
    and "length esk = 32"
  obtains pk epk k where
    "base64_decode L (JStr (publicKey K)) = Inr pk"
    "base64_decode L (JStr (privateKey K)) = Inr skBytes"
    "x25519_getPublicKey L esk = Inr epk"
    "x25519_getSharedSecret L esk pk = Inr k"
    "x25519_getSharedSecret L skBytes epk = Inr k"
    "length k = 32"
proof -
  from assms(3) obtain pk where pk: "x25519_getPublicKey L skBytes = Inr pk"
    and K: "K = \<lparr>publicKey = base64_encode L pk, privateKey = base64_encode L skBytes\<rparr>"
    by (auto simp: generateKeyPair_def bind_def split: sum.splits)
  from assms(2,4) obtain epk where epk: "x25519_getPublicKey L esk = Inr epk"
    by (auto simp: x25519_ok_def)
  from assms(2) pk epk obtain k where
    "x25519_getSharedSecret L esk pk = Inr k" "x25519_getSharedSecret L skBytes epk = Inr k"
    "length k = 32"
    unfolding x25519_ok_def by blast
  moreover have "base64_decode L (JStr (publicKey K)) = Inr pk"
    "base64_decode L (JStr (privateKey K)) = Inr skBytes"
    using assms(1) K by (simp_all add: base64_ok_def)
  ultimately show ?thesis using that epk by blast
qed

lemma decrypt_after_encrypt:
  assumes "base64_ok L" "x25519_ok L" "aead_ok L"
    and "generateKeyPair L skBytes = Inr K"
    and "length esk = 32" "length nonce = 12"
  shows "bind (encrypt L esk nonce now (JStr (publicKey K)) P) (decrypt L (JStr (privateKey K))) =
           Inr (text_decode (plaintext_bytes P))"
proof -
  obtain pk epk k where f:
    "base64_decode L (JStr (publicKey K)) = Inr pk"
    "base64_decode L (JStr (privateKey K)) = Inr skBytes"
    "x25519_getPublicKey L esk = Inr epk"
    "x25519_getSharedSecret L esk pk = Inr k"
    "x25519_getSharedSecret L skBytes epk = Inr k"
    "length k = 32"
    using key_agreement[OF assms(1,2,4,5)] by blast
  note n = assms(6)
  let ?body = "sealed_body L k nonce (plaintext_bytes P)"
  have tag: "length (auth_tag L ChaCha20_Poly1305 k nonce ?body) = 16"
    using assms(3) by (simp add: aead_ok_def)
  have "bind (encrypt L esk nonce now (JStr (publicKey K)) P) (decrypt L (JStr (privateKey K))) =
      Inr (text_decode (sealed_body L k nonce ?body))"
    unfolding encrypt_result[OF f(1,3,4,6) n] bind_Inr
    by (rule decrypt_result[OF assms(1) f(2) _ _ _ f(5,6) n tag]) simp_all
  then show ?thesis by (simp add: sealed_body_twice)
qed

section \<open>Flipping a bit of the ciphertext\<close>

lemma length_flip_bit [simp]: "length (flip_bit i bs) = length bs"
  by (simp add: flip_bit_def)

lemma flip_bit_append_left:
  "i div 8 < length xs \<Longrightarrow> flip_bit i (xs @ ys) = flip_bit i xs @ ys"
  by (simp add: flip_bit_def list_update_append nth_append)

lemma flip_bit_append_right:
  assumes "length xs \<le> i div 8"
  shows "flip_bit i (xs @ ys) = xs @ flip_bit (i - 8 * length xs) ys"
proof -
  have le: "8 * length xs \<le> i" using assms by simp
  then obtain r where i: "i = 8 * length xs + r" using le_iff_add by blast
  have d: "(i - 8 * length xs) div 8 = i div 8 - length xs"
    unfolding i by simp
  have m: "(i - 8 * length xs) mod 8 = i mod 8"
    unfolding i by simp
  show ?thesis using assms
    by (simp add: flip_bit_def list_update_append nth_append d m)
qed

lemma xor_bytes_update:
  assumes "j < length xs" "j < length ks"
  shows "xor_bytes (xs[j := xs ! j XOR m]) ks = (xor_bytes xs ks)[j := (xor_bytes xs ks) ! j XOR m]"
proof -
  have "zip (xs[j := xs ! j XOR m]) ks = (zip xs ks)[j := (xs ! j XOR m, ks ! j)]"
    by (simp add: update_zip)
  then show ?thesis using assms
    by (simp add: xor_bytes_def map_update xor.assoc xor.commute xor.left_commute)
qed

lemma sealed_body_flip_bit:
  "i div 8 < length pt \<Longrightarrow>
   sealed_body L key nonce (flip_bit i pt) = flip_bit i (sealed_body L key nonce pt)"
  by (simp add: sealed_body_def flip_bit_def xor_bytes_update)


lemma tampered_ciphertext:
  assumes "base64_ok L"
    and "base64_decode L pk64 = Inr pk"
    and "x25519_getPublicKey L esk = Inr epk"
    and "x25519_getSharedSecret L esk pk = Inr k"
    and "length k = 32" and "length nonce = 12"
  shows "bind (encrypt L esk nonce now pk64 P) (tamper L ''ciphertext'' i) =
     Inr (JObj
       [(''keyId'', JStr (base64_encode L (take 8 pk))),
        (''ephemeralPublicKey'', JStr (base64_encode L epk)),
        (''nonce'', JStr (base64_encode L nonce)),
        (''ciphertext'', JStr (base64_encode L (flip_bit i
           (sealed_body L k nonce (plaintext_bytes P) @
            auth_tag L ChaCha20_Poly1305 k nonce (sealed_body L k nonce (plaintext_bytes P)))))),
        (''timestamp'', JNum now)])"
proof -
  have dec: "\<And>bs. base64_decode L (JStr (base64_encode L bs)) = Inr bs"
    using assms(1) by (simp add: base64_ok_def)
  show ?thesis unfolding encrypt_result[OF assms(2-)]
    by (simp add: tamper_def dec)
qed

lemma decrypt_tampered_ciphertext:
  assumes "base64_ok L" "x25519_ok L" "aead_ok L"
    and "generateKeyPair L skBytes = Inr K"
    and "length esk = 32" "length nonce = 12"
    and "i < 8 * (length (plaintext_bytes P) + 16)"
  shows "bind (bind (encrypt L esk nonce now (JStr (publicKey K)) P) (tamper L ''ciphertext'' i))
              (decrypt L (JStr (privateKey K))) =
           Inr (text_decode (if i < 8 * length (plaintext_bytes P)
                             then flip_bit i (plaintext_bytes P) else plaintext_bytes P))"
proof -
  obtain pk epk k where f:
    "base64_decode L (JStr (publicKey K)) = Inr pk"
    "base64_decode L (JStr (privateKey K)) = Inr skBytes"
    "x25519_getPublicKey L esk = Inr epk"
    "x25519_getSharedSecret L esk pk = Inr k"
    "x25519_getSharedSecret L skBytes epk = Inr k"
    "length k = 32"
    using key_agreement[OF assms(1,2,4,5)] by blast
  note n = assms(6)
  let ?pt = "plaintext_bytes P"
  let ?body = "sealed_body L k nonce ?pt"
  let ?tag = "auth_tag L ChaCha20_Poly1305 k nonce ?body"
  have tag: "length ?tag = 16" using assms(3) by (simp add: aead_ok_def)
  show ?thesis
  proof (cases "i < 8 * length ?pt")
    case True
    then have j: "i div 8 < length ?pt" by (simp add: less_mult_imp_div_less mult.commute)
    then have fl: "flip_bit i (?body @ ?tag) = flip_bit i ?body @ ?tag"
      by (simp add: flip_bit_append_left)
    have "bind (bind (encrypt L esk nonce now (JStr (publicKey K)) P) (tamper L ''ciphertext'' i))
              (decrypt L (JStr (privateKey K))) =
          Inr (text_decode (sealed_body L k nonce (flip_bit i ?body)))"
      unfolding tampered_ciphertext[OF assms(1) f(1,3,4,6) n] bind_Inr fl
      by (rule decrypt_result[OF assms(1) f(2) _ _ _ f(5,6) n tag]) simp_all
    then show ?thesis using True j
      by (simp add: sealed_body_flip_bit[symmetric] sealed_body_twice)
  next
    case False
    then have j: "length ?body \<le> i div 8" by simp
    have fl: "flip_bit i (?body @ ?tag) = ?body @ flip_bit (i - 8 * length ?body) ?tag"
      using j by (rule flip_bit_append_right)
    have tag': "length (flip_bit (i - 8 * length ?body) ?tag) = 16" using tag by simp
    have "bind (bind (encrypt L esk nonce now (JStr (publicKey K)) P) (tamper L ''ciphertext'' i))
              (decrypt L (JStr (privateKey K))) =
          Inr (text_decode (sealed_body L k nonce ?body))"
      unfolding tampered_ciphertext[OF assms(1) f(1,3,4,6) n] bind_Inr fl
      by (rule decrypt_result[OF assms(1) f(2) _ _ _ f(5,6) n tag']) simp_all
    then show ?thesis using False by (simp add: sealed_body_twice)
  qed
qed

lemma decrypt_never_authentication_failure:
  assumes "\<forall>v. base64_decode L v \<noteq> Inl AuthenticationFailure"
    and "\<forall>a b. x25519_getSharedSecret L a b \<noteq> Inl AuthenticationFailure"
  shows "decrypt L sk64 envelope \<noteq> Inl AuthenticationFailure"
proof -
  have g: "get_prop v name \<noteq> Inl AuthenticationFailure" for v name
    by (cases v) simp_all
  have b: "bind r f = Inl AuthenticationFailure \<Longrightarrow>
      r = Inl AuthenticationFailure \<or> (\<exists>x. r = Inr x \<and> f x = Inl AuthenticationFailure)" for r :: "error + 'a" and f :: "'a \<Rightarrow> error + 'b"
    by (cases r) simp_all
  show ?thesis
    using assms g
    by (auto simp: decrypt_def createDecipheriv_def createCipheriv_def setAuthTag_def Let_def
        decipher_update_def dest!: b split: if_splits)
qed


lemma map_of_put: "map_of (put k v ps) = (map_of ps)(k \<mapsto> v)"
  by (induction ps) auto

section \<open>Sealing and opening the private key\<close>

lemma vault_body_twice: "vault_body L key iv (vault_body L key iv pt) = pt"
  by (simp add: vault_body_def xor_bytes_twice)

lemma length_vault_body [simp]: "length (vault_body L key iv pt) = length pt"
  by (simp add: vault_body_def)

lemma encryptPrivateKey_result:
  assumes "length (pbkdf2Sync L (utf8_encode W) salt 100000 32) = 32" and "iv \<noteq> []"
  shows "encryptPrivateKey L salt iv K W =
     Inr (JObj
       [(''salt'', JStr (hex_encode salt)),
        (''iv'', JStr (hex_encode iv)),
        (''authTag'', JStr (hex_encode (auth_tag L AES_256_GCM
            (pbkdf2Sync L (utf8_encode W) salt 100000 32) iv
            (vault_body L (pbkdf2Sync L (utf8_encode W) salt 100000 32) iv (utf8_encode K))))),
        (''encrypted'', JStr (hex_encode
            (vault_body L (pbkdf2Sync L (utf8_encode W) salt 100000 32) iv (utf8_encode K))))])"
  using assms
  by (simp add: encryptPrivateKey_def createCipheriv_def iv_ok_def cipher_update_def stream_from_def
      cipher_final_def getAuthTag_def vault_body_def Let_def hex_encode_def)

lemma decryptPrivateKey_result:
  assumes "has_hex_fields blob"
  shows "decryptPrivateKey L blob W =
     (if length (derived_key L blob W) \<noteq> 32 then Inl InvalidKeyLength
      else if field_bytes blob ''iv'' = [] then Inl InvalidIV
      else if \<not> tag_length_ok AES_256_GCM (length (field_bytes blob ''authTag''))
        then Inl InvalidAuthTagLength
      else if take (length (field_bytes blob ''authTag'')) (recomputed_tag L blob W) =
              field_bytes blob ''authTag''
        then Inr (utf8_decode (vault_body L (derived_key L blob W) (field_bytes blob ''iv'')
                    (field_bytes blob ''encrypted'')))
      else Inl AuthenticationFailure)"
proof -
  from assms obtain s i t e where f:
    "get_prop blob ''salt'' = Inr (JStr s)" "get_prop blob ''iv'' = Inr (JStr i)"
    "get_prop blob ''authTag'' = Inr (JStr t)" "get_prop blob ''encrypted'' = Inr (JStr e)"
    "even (length (utf16 e))"
    by (auto simp: has_hex_fields_def split: sum.splits jsval.splits)
  show ?thesis
    by (simp add: decryptPrivateKey_def f field_bytes_def derived_key_def recomputed_tag_def
        createDecipheriv_def createCipheriv_def iv_ok_def setAuthTag_def decipher_update_def
        decipher_final_def stream_from_def vault_body_def Let_def update_hex_def)
qed


lemma sealed_blob:
  assumes "length (vault_key L W salt) = 32" and "iv \<noteq> []"
  shows "encryptPrivateKey L salt iv K W =
     Inr (JObj
       [(''salt'', JStr (hex_encode salt)),
        (''iv'', JStr (hex_encode iv)),
        (''authTag'', JStr (hex_encode (vault_tag L W salt iv (vault_ciphertext L W salt iv K)))),
        (''encrypted'', JStr (hex_encode (vault_ciphertext L W salt iv K)))])"
  using encryptPrivateKey_result[of L W salt iv K] assms
  by (simp add: vault_key_def vault_tag_def vault_ciphertext_def)

lemma open_sealed:
  assumes "aead_ok L"
    and "length (vault_key L W salt) = 32" and "length (vault_key L W' salt) = 32"
    and "iv \<noteq> []"
  shows "bind (encryptPrivateKey L salt iv K W) (\<lambda>blob. decryptPrivateKey L blob W') =
     (if vault_tag L W' salt iv (vault_ciphertext L W salt iv K) =
         vault_tag L W salt iv (vault_ciphertext L W salt iv K)
      then Inr (utf8_decode (vault_body L (vault_key L W' salt) iv (vault_ciphertext L W salt iv K)))
      else Inl AuthenticationFailure)"
proof -
  let ?blob = "JObj
       [(''salt'', JStr (hex_encode salt)),
        (''iv'', JStr (hex_encode iv)),
        (''authTag'', JStr (hex_encode (vault_tag L W salt iv (vault_ciphertext L W salt iv K)))),
        (''encrypted'', JStr (hex_encode (vault_ciphertext L W salt iv K)))]"
  have h: "has_hex_fields ?blob" by (simp add: has_hex_fields_def even_hex_encode)
  have fb: "field_bytes ?blob ''salt'' = salt" "field_bytes ?blob ''iv'' = iv"
    "field_bytes ?blob ''authTag'' = vault_tag L W salt iv (vault_ciphertext L W salt iv K)"
    "field_bytes ?blob ''encrypted'' = vault_ciphertext L W salt iv K"
    by (simp_all add: field_bytes_def hex_text_encode)
  have t: "length (vault_tag L W salt iv c) = 16" "length (vault_tag L W' salt iv c) = 16" for c
    using assms(1) by (simp_all add: aead_ok_def vault_tag_def)
  have dk: "derived_key L ?blob W' = vault_key L W' salt"
    by (simp add: derived_key_def fb vault_key_def)
  have rt: "recomputed_tag L ?blob W' = vault_tag L W' salt iv (vault_ciphertext L W salt iv K)"
    unfolding recomputed_tag_def dk fb by (simp only: vault_tag_def)
  show ?thesis
    unfolding sealed_blob[OF assms(2,4)] bind_Inr decryptPrivateKey_result[OF h] dk rt fb
    using assms(3,4) t by (simp add: tag_length_ok_def)
qed

lemma b64_char_scalar: "scalar_value (b64_char n)"
  by (auto simp: b64_char_def scalar_value_def is_surrogate_def)

lemma b64_encode_scalar: "list_all scalar_value (b64_encode bs)"
proof -
  have p: "scalar_value 61" by (simp add: scalar_value_def is_surrogate_def)
  have "list_all scalar_value (b64_encode_nat ns)" for ns
    by (induction ns rule: b64_encode_nat.induct) (simp_all add: b64_char_scalar p)
  then show ?thesis by (simp add: b64_encode_def)
qed

section \<open>A password followed by a zero byte derives the same key\<close>

lemma hmac_key_zero_pad: "length k < 128 \<Longrightarrow> hmac_key H (k @ [0]) = hmac_key H k"
proof -
  assume l: "length k < 128"
  then have "128 - length k = Suc (127 - length k)" by simp
  then have "replicate (128 - length k) (0::byte) = 0 # replicate (127 - length k) 0"
    by (simp only: replicate_Suc)
  with l show ?thesis by (simp add: hmac_key_def)
qed

lemma hmac_zero_pad: "length k < 128 \<Longrightarrow> hmac H (k @ [0]) m = hmac H k m"
  by (simp add: hmac_def hmac_key_zero_pad)

lemma pbkdf2_rounds_zero_pad:
  "length k < 128 \<Longrightarrow> pbkdf2_rounds H (k @ [0]) n u t = pbkdf2_rounds H k n u t"
  by (induction n arbitrary: u t) (simp_all add: hmac_zero_pad)

lemma pbkdf2_hmac_zero_pad:
  "length k < 128 \<Longrightarrow> pbkdf2_hmac H (k @ [0]) s c n = pbkdf2_hmac H k s c n"
proof -
  assume l: "length k < 128"
  have "pbkdf2_block H (k @ [0]) s c = pbkdf2_block H k s c"
    by (rule ext) (simp add: pbkdf2_block_def hmac_zero_pad[OF l] pbkdf2_rounds_zero_pad[OF l])
  then show ?thesis by (simp only: pbkdf2_hmac_def)
qed

lemma utf8_encode_nul: "utf8_encode (W @ [0]) = utf8_encode W @ [0]"
  by (simp add: utf8_encode_def utf8_encode_cp_def is_surrogate_def byte_of_def)

lemma length_small_hash [simp]: "length (small_hash m) = 64"
  by (simp add: small_hash_def)

lemma length_hmac_small [simp]: "length (hmac small_hash k m) = 64"
  by (simp add: hmac_def)

lemma length_pbkdf2_rounds_small:
  "length t = 64 \<Longrightarrow> length (pbkdf2_rounds small_hash p n u t) = 64"
  by (induction n arbitrary: u t) (simp_all add: Let_def)

lemma length_pbkdf2_hmac_small: "length (pbkdf2_hmac small_hash p s c 32) = 32"
proof -
  have "length (pbkdf2_block small_hash p s c 1) = 64"
    by (simp add: pbkdf2_block_def Let_def length_pbkdf2_rounds_small)
  then show ?thesis by (simp add: pbkdf2_hmac_def)
qed

lemma nul_padded_password:
  assumes "pbkdf2Sync L = pbkdf2_hmac H" "length (utf8_encode W) < 128"
  shows "vault_key L (W @ [0]) salt = vault_key L W salt"
  using assms by (simp add: vault_key_def utf8_encode_nul pbkdf2_hmac_zero_pad)

lemma hmac_lib_aead_ok: "aead_ok hmac_lib"
  by (simp add: aead_ok_def hmac_lib_def small_lib_def small_auth_tag_def)

lemma opens_with_nul_padded_password:
  assumes "aead_ok L" and "pbkdf2Sync L = pbkdf2_hmac H"
    and "length (vault_key L W salt) = 32" and "iv \<noteq> []"
    and "length (utf8_encode W) < 128"
    and "list_all scalar_value K"
  shows "bind (encryptPrivateKey L salt iv K W) (\<lambda>blob. decryptPrivateKey L blob (W @ [0])) = Inr K"
proof -
  have same: "vault_key L (W @ [0]) salt = vault_key L W salt"
    by (rule nul_padded_password[OF assms(2,5)])
  have k': "length (vault_key L (W @ [0]) salt) = 32" unfolding same by (rule assms(3))
  have sv: "utf8_decode (utf8_encode K) = K"
    using assms(6) by (simp add: utf8_decode_encode list_all_iff)
  show ?thesis
    unfolding open_sealed[OF assms(1,3) k' assms(4)]
    by (simp add: vault_tag_def same vault_ciphertext_def vault_body_twice sv)
qed

section \<open>A blob with a modified field\<close>


















section \<open>The envelope validator\<close>




section \<open>Checking a key pair\<close>

lemma verifyKeyPair_eq:
  "verifyKeyPair L pub priv =
     Inr (case derived_public_key L priv of Inl e \<Rightarrow> False | Inr d \<Rightarrow> JStr d = pub)"
  by (auto simp: verifyKeyPair_def derived_public_key_def bind_def try_catch_def split: sum.splits)

text \<open>
  C9. \<open>verifyKeyPair\<close> never raises: it returns true or false. It returns true exactly when
  the private key decodes, has a public key, and the Base64 text of that public key is the
  claimed public key. It returns false when the private key does not decode, and (a codec
  that decodes what it encodes) when the claimed public key does not decode.
\<close>

theorem verifyKeyPair_true_iff:
  "(verifyKeyPair L pub priv = Inr True \<or> verifyKeyPair L pub priv = Inr False) \<and>
   (verifyKeyPair L pub priv = Inr True) =
     (\<exists>d. derived_public_key L priv = Inr d \<and> pub = JStr d) \<and>
   ((\<exists>e. base64_decode L priv = Inl e) \<longrightarrow> verifyKeyPair L pub priv = Inr False) \<and>
   (base64_ok L \<and> (\<exists>e. base64_decode L pub = Inl e) \<longrightarrow>
      verifyKeyPair L pub priv = Inr False)"
  unfolding verifyKeyPair_eq
  by (auto simp: derived_public_key_def bind_def base64_ok_def split: sum.splits)


lemma example_public_derived:
  "derived_public_key small_lib example_private = Inr (b64_encode (replicate 32 6))"
  by (simp add: derived_public_key_def example_private_def small_lib_def b64_decode_encode bind_def
      small_getPublicKey_def example_private_bytes_def small_mult_def)

lemma not_base64_fails: "base64_decode small_lib not_base64 = Inl DecodeError"
  by (simp add: small_lib_def not_base64_def b64_decode_def ascii_def)

theorem verifyKeyPair_true_iff_witness:
  "verifyKeyPair small_lib example_public example_private = Inr True \<and>
   verifyKeyPair small_lib example_public not_base64 = Inr False \<and>
   verifyKeyPair small_lib not_base64 example_private = Inr False"
proof -
  have a: "verifyKeyPair small_lib example_public example_private = Inr True"
    using verifyKeyPair_true_iff[of small_lib example_public example_private]
    by (simp add: example_public_derived example_public_def)
  have b: "verifyKeyPair small_lib example_public not_base64 = Inr False"
    using verifyKeyPair_true_iff[of small_lib example_public not_base64] not_base64_fails
    by simp
  have c: "verifyKeyPair small_lib not_base64 example_private = Inr False"
    using verifyKeyPair_true_iff[of small_lib not_base64 example_private] not_base64_fails
      small_lib_base64_ok
    by simp
  from a b c show ?thesis by simp
qed


section \<open>Decrypting a list\<close>

lemma decryptBatch_elementwise:
  "decryptBatch L clock sk emails = Inr rs \<longleftrightarrow>
     length rs = length emails \<and>
     (\<forall>i < length emails. decryptBatch_element L sk (clock i) (emails ! i) = Inr (rs ! i))"
  by (simp add: decryptBatch_def map_result_Inr_iff)

lemma decryptBatch_element_total:
  "\<not> nullish email \<Longrightarrow> \<exists>r. decryptBatch_element L sk now email = Inr r"
proof -
  assume n: "\<not> nullish email"
  obtain a b where "get_prop email ''encrypted'' = Inr a" "get_prop email ''encryption'' = Inr b"
    using get_prop_Inr[OF n] by blast
  then show ?thesis
    by (auto simp: decryptBatch_element_def bind_def try_catch_def split: sum.splits)
qed

lemma decryptBatch_element_unencrypted:
  "unencrypted email \<Longrightarrow> decryptBatch_element L sk now email = Inr email"
  by (auto simp: unencrypted_def decryptBatch_element_def bind_def split: sum.splits)

text \<open>
  An element whose decryption or parsing throws is returned with the failure marker and
  the message of the exception.
\<close>

lemma decryptBatch_element_marks_failure:
  assumes "get_prop email ''encrypted'' = Inr encrypted" "truthy encrypted"
    and "get_prop email ''encryption'' = Inr encryption" "truthy encryption"
    and "bind (decrypt L sk encryption) (json_parse L) = Inl e"
  shows "decryptBatch_element L sk now email =
     Inr (JObj (put ''errorMessage'' (JStr (error_message L e))
               (put ''error'' (JStr decrypt_failed) (spread [] email))))"
  using assms
  by (auto simp: decryptBatch_element_def try_catch_def bind_def split: sum.splits)

lemma decryptBatch_total:
  assumes "\<forall>e \<in> set emails. \<not> nullish e"
  shows "\<exists>rs. decryptBatch L clock sk emails = Inr rs"
  unfolding decryptBatch_def
proof (rule map_result_total, clarify)
  fix i e assume "(i, e) \<in> set (zip [0..<length emails] emails)"
  then have "e \<in> set emails" by (rule set_zip_rightD)
  with assms have "\<not> nullish e" by blast
  then show "\<exists>y. decryptBatch_element L sk (clock i) e = Inr y"
    by (rule decryptBatch_element_total)
qed

lemma map_result_first_error:
  assumes "\<forall>x \<in> set xs. (\<exists>y. f x = Inr y) \<or> f x = Inl e" and "\<exists>x \<in> set xs. f x = Inl e"
  shows "map_result f xs = Inl e"
  using assms
proof (induction xs)
  case Nil
  then show ?case by simp
next
  case (Cons x xs)
  show ?case
  proof (cases "f x")
    case (Inl a)
    with Cons.prems(1) have "a = e" by auto
    with Inl show ?thesis by simp
  next
    case (Inr y)
    with Cons.prems(2) have ex: "\<exists>x \<in> set xs. f x = Inl e" by auto
    have "map_result f xs = Inl e" using Cons.IH Cons.prems(1) ex by simp
    with Inr show ?thesis by simp
  qed
qed

text \<open>
  The guard reads \<open>email.encrypted\<close> before the \<open>try\<close>: on \<open>undefined\<close> and \<open>null\<close> it
  throws, and the exception leaves \<open>map\<close> and \<open>decryptBatch\<close>.
\<close>

lemma decryptBatch_element_nullish:
  "nullish email \<Longrightarrow> decryptBatch_element L sk now email = Inl TypeError"
  by (simp add: decryptBatch_element_def get_prop_Inl)

lemma decryptBatch_throws:
  assumes "\<exists>e \<in> set emails. nullish e"
  shows "decryptBatch L clock sk emails = Inl TypeError"
  unfolding decryptBatch_def
proof (rule map_result_first_error)
  show "\<forall>x\<in>set (zip [0..<length emails] emails).
       (\<exists>y. (case x of (i, email) \<Rightarrow> decryptBatch_element L sk (clock i) email) = Inr y) \<or>
       (case x of (i, email) \<Rightarrow> decryptBatch_element L sk (clock i) email) = Inl TypeError"
  proof (clarify)
    fix i e
    assume n: "decryptBatch_element L sk (clock i) e \<noteq> Inl TypeError"
    then have "\<not> nullish e" using decryptBatch_element_nullish by blast
    then show "\<exists>y. decryptBatch_element L sk (clock i) e = Inr y"
      by (rule decryptBatch_element_total)
  qed
next
  from assms obtain e where e: "e \<in> set emails" "nullish e" by blast
  then obtain i where i: "i < length emails" "emails ! i = e" by (auto simp: in_set_conv_nth)
  then have "(i, e) \<in> set (zip [0..<length emails] emails)"
    by (auto simp: in_set_zip intro: exI[of _ i])
  moreover have "decryptBatch_element L sk (clock i) e = Inl TypeError"
    using e(2) by (rule decryptBatch_element_nullish)
  ultimately show "\<exists>x\<in>set (zip [0..<length emails] emails).
       (case x of (i, email) \<Rightarrow> decryptBatch_element L sk (clock i) email) = Inl TypeError"
    by (intro bexI[of _ "(i, e)"]) simp_all
qed

text \<open>
  C10, as amended. On a list without \<open>undefined\<close> and \<open>null\<close>, \<open>decryptBatch\<close> returns a
  list of the same length, and at every index whose element has a falsy \<open>encrypted\<close> flag
  or a falsy (in particular an absent) \<open>encryption\<close> field the result is the element
  itself, whatever the libraries and the key are: nothing is decrypted there. On a list
  that holds \<open>undefined\<close> or \<open>null\<close> the call throws a \<open>TypeError\<close> and returns no element.
\<close>

theorem decryptBatch_passes_unencrypted:
  "((\<forall>e \<in> set emails. \<not> nullish e) \<longrightarrow>
      (\<exists>rs. decryptBatch L clock sk emails = Inr rs \<and> length rs = length emails \<and>
            (\<forall>i < length emails. unencrypted (emails ! i) \<longrightarrow> rs ! i = emails ! i))) \<and>
   ((\<exists>e \<in> set emails. nullish e) \<longrightarrow> decryptBatch L clock sk emails = Inl TypeError)"
proof (intro conjI impI)
  assume ok: "\<forall>e \<in> set emails. \<not> nullish e"
  obtain rs where rs: "decryptBatch L clock sk emails = Inr rs"
    using decryptBatch_total[OF ok] by blast
  then have len: "length rs = length emails"
    and each: "\<forall>i < length emails. decryptBatch_element L sk (clock i) (emails ! i) = Inr (rs ! i)"
    by (simp_all add: decryptBatch_elementwise)
  have "rs ! i = emails ! i" if "i < length emails" "unencrypted (emails ! i)" for i
    using each that decryptBatch_element_unencrypted[of "emails ! i" L sk "clock i"] by simp
  with rs len show "\<exists>rs. decryptBatch L clock sk emails = Inr rs \<and> length rs = length emails \<and>
      (\<forall>i < length emails. unencrypted (emails ! i) \<longrightarrow> rs ! i = emails ! i)"
    by blast
next
  assume "\<exists>e \<in> set emails. nullish e"
  then show "decryptBatch L clock sk emails = Inl TypeError" by (rule decryptBatch_throws)
qed

theorem decryptBatch_passes_unencrypted_witness:
  "decryptBatch small_lib (\<lambda>i. 1000) (JStr (ascii ''AA=='')) [plain_mail, flagged_mail] =
     Inr [plain_mail, flagged_mail] \<and>
   decryptBatch small_lib (\<lambda>i. 1000) (JStr (ascii ''AA=='')) [flagged_mail, JUndefined] =
     Inl TypeError"
proof -
  let ?ms = "[plain_mail, flagged_mail]"
  have n: "\<forall>e \<in> set ?ms. \<not> nullish e"
    by (simp add: plain_mail_def flagged_mail_def nullish_def)
  have u: "unencrypted plain_mail" "unencrypted flagged_mail"
    by (simp_all add: plain_mail_def flagged_mail_def unencrypted_def)
  obtain rs where rs: "decryptBatch small_lib (\<lambda>i. 1000) (JStr (ascii ''AA=='')) ?ms = Inr rs"
    and len: "length rs = length ?ms"
    and same: "\<forall>i < length ?ms. unencrypted (?ms ! i) \<longrightarrow> rs ! i = ?ms ! i"
    using decryptBatch_passes_unencrypted[where emails = ?ms, THEN conjunct1] n
    by blast
  from same u have "rs ! 0 = plain_mail" "rs ! 1 = flagged_mail" by auto
  with len have "rs = ?ms"
    by (auto simp: nth_equalityI length_Suc_conv)
  with rs have a: "decryptBatch small_lib (\<lambda>i. 1000) (JStr (ascii ''AA=='')) ?ms = Inr ?ms"
    by simp
  have "\<exists>e \<in> set [flagged_mail, JUndefined]. nullish e" by (simp add: nullish_def)
  then have b: "decryptBatch small_lib (\<lambda>i. 1000) (JStr (ascii ''AA==''))
      [flagged_mail, JUndefined] = Inl TypeError"
    using decryptBatch_passes_unencrypted[where emails = "[flagged_mail, JUndefined]", THEN conjunct2]
    by blast
  from a b show ?thesis by simp
qed

text \<open>
  C10, as stated for every list, fails: \<open>plain_mail\<close> has no \<open>encrypted\<close> flag, and in the
  list \<open>[plain_mail, null]\<close> it is not returned, because the call throws on \<open>null\<close>.
\<close>

theorem decryptBatch_throws_on_null:
  "unencrypted plain_mail \<and>
   decryptBatch small_lib (\<lambda>i. 1000) (JStr (ascii ''AA=='')) [plain_mail, JNull] = Inl TypeError"
  by (simp add: unencrypted_def plain_mail_def decryptBatch_def decryptBatch_element_def)

section \<open>Decrypting what was encrypted\<close>

text \<open>
  C2, as amended. For a key pair of the generator, an ephemeral key of 32 bytes and a
  nonce of 12 bytes, \<open>decrypt\<close> of \<open>encrypt\<close> returns the plaintext bytes read as UTF-8 by
  \<open>TextDecoder\<close>, a string; for a plaintext string of Unicode scalar values that does not
  start with a byte order mark this is the plaintext itself.
\<close>

theorem decrypt_encrypt:
  assumes "base64_ok L" "x25519_ok L" "aead_ok L"
    and "generateKeyPair L skBytes = Inr K"
    and "length esk = 32" "length nonce = 12"
  shows "bind (encrypt L esk nonce now (JStr (publicKey K)) P) (decrypt L (JStr (privateKey K))) =
           Inr (text_decode (plaintext_bytes P)) \<and>
         (\<forall>s. P = PText s \<and> well_formed s \<longrightarrow>
           bind (encrypt L esk nonce now (JStr (publicKey K)) P) (decrypt L (JStr (privateKey K))) =
             Inr s)"
  using decrypt_after_encrypt[OF assms, of now P]
  by (auto simp: plaintext_bytes_def text_decode_utf8_encode)

lemma example_key_pair:
  "generateKeyPair small_lib example_private_bytes =
     Inr \<lparr>publicKey = b64_encode (replicate 32 6), privateKey = b64_encode example_private_bytes\<rparr>"
  by (simp add: generateKeyPair_def small_lib_def small_getPublicKey_def example_private_bytes_def
      small_mult_def)

theorem decrypt_encrypt_witness:
  "bind (encrypt small_lib (replicate 32 1) (replicate 12 7) 1700000000000 example_public
           (PText (ascii ''hello world'')))
        (decrypt small_lib example_private) = Inr (ascii ''hello world'')"
proof -
  have wf: "well_formed (ascii ''hello world'')"
    by (simp add: well_formed_def ascii_def scalar_value_def is_surrogate_def)
  note t = decrypt_encrypt[OF small_lib_base64_ok small_lib_x25519_ok small_lib_aead_ok
      example_key_pair, of "replicate 32 1" "replicate 12 7" 1700000000000
      "PText (ascii ''hello world'')"]
  show ?thesis
    using t[THEN conjunct2, rule_format, of "ascii ''hello world''"] wf
    by (simp add: example_public_def example_private_def)
qed

text \<open>
  C2, as stated, fails on byte strings: the plaintexts \<open>FF\<close> and \<open>FE\<close>, each a
  \<open>Uint8Array\<close> of one byte, both come back as the string U+FFFD, whose bytes are
  \<open>EF BF BD\<close>.
\<close>

theorem decrypt_encrypt_loses_bytes:
  "bind (encrypt small_lib (replicate 32 1) (replicate 12 7) 1700000000000 example_public
           (PBytes [0xFF]))
        (decrypt small_lib example_private) = Inr [0xFFFD] \<and>
   bind (encrypt small_lib (replicate 32 1) (replicate 12 7) 1700000000000 example_public
           (PBytes [0xFE]))
        (decrypt small_lib example_private) = Inr [0xFFFD] \<and>
   utf8_encode [0xFFFD] = [0xEF, 0xBF, 0xBD]"
proof -
  have d: "text_decode [0xFF] = [0xFFFD]" "text_decode [0xFE] = [0xFFFD]"
    by (simp_all add: text_decode_def utf8_decode_def utf8_step_def utf8_lead_def utf8_init_def)
  have e: "utf8_encode [0xFFFD] = [0xEF, 0xBF, 0xBD]"
    by (simp add: utf8_encode_def utf8_encode_cp_def is_surrogate_def byte_of_def)
  show ?thesis
    using decrypt_after_encrypt[OF small_lib_base64_ok small_lib_x25519_ok small_lib_aead_ok
        example_key_pair, of "replicate 32 1" "replicate 12 7" 1700000000000 "PBytes [0xFF]"]
      decrypt_after_encrypt[OF small_lib_base64_ok small_lib_x25519_ok small_lib_aead_ok
        example_key_pair, of "replicate 32 1" "replicate 12 7" 1700000000000 "PBytes [0xFE]"]
      d e
    by (simp add: example_public_def example_private_def plaintext_bytes_def)
qed

text \<open>A string that starts with a byte order mark comes back without it.\<close>

lemma decrypt_encrypt_drops_bom:
  "bind (encrypt small_lib (replicate 32 1) (replicate 12 7) 1700000000000 example_public
           (PText [0xFEFF, 0x41]))
        (decrypt small_lib example_private) = Inr [0x41]"
proof -
  have d: "text_decode (utf8_encode [0xFEFF, 0x41]) = [0x41]"
    by (simp add: text_decode_def utf8_decode_def utf8_step_def utf8_lead_def utf8_init_def
        utf8_encode_def utf8_encode_cp_def is_surrogate_def byte_of_def)
  show ?thesis
    using decrypt_after_encrypt[OF small_lib_base64_ok small_lib_x25519_ok small_lib_aead_ok
        example_key_pair, of "replicate 32 1" "replicate 12 7" 1700000000000 "PText [0xFEFF, 0x41]"]
      d
    by (simp add: example_public_def example_private_def plaintext_bytes_def)
qed


section \<open>Decrypting an envelope that was modified\<close>

text \<open>
  C1 does not hold of the code: \<open>decrypt\<close> never compares the tag. For a key pair of the
  generator and an envelope of \<open>encrypt\<close>, flipping bit \<open>i\<close> of the ciphertext field makes
  \<open>decrypt\<close> return, not fail: the plaintext with bit \<open>i\<close> flipped when the bit lies in
  the encrypted body, the unchanged plaintext when it lies in the 16 bytes of the tag.
  Whichever field is modified, and as long as the codec and the key agreement do not raise
  that error themselves, \<open>decrypt\<close> does not fail with an authentication failure.
\<close>

theorem decrypt_does_not_authenticate:
  assumes "base64_ok L" "x25519_ok L" "aead_ok L"
    and "generateKeyPair L skBytes = Inr K"
    and "length esk = 32" "length nonce = 12"
    and "i < 8 * (length (plaintext_bytes P) + 16)"
  shows "bind (bind (encrypt L esk nonce now (JStr (publicKey K)) P) (tamper L ''ciphertext'' i))
              (decrypt L (JStr (privateKey K))) =
           Inr (text_decode (if i < 8 * length (plaintext_bytes P)
                             then flip_bit i (plaintext_bytes P) else plaintext_bytes P)) \<and>
         (\<forall>field j.
            (\<forall>v. base64_decode L v \<noteq> Inl AuthenticationFailure) \<and>
            (\<forall>a b. x25519_getSharedSecret L a b \<noteq> Inl AuthenticationFailure) \<longrightarrow>
            bind (bind (encrypt L esk nonce now (JStr (publicKey K)) P) (tamper L field j))
                 (decrypt L (JStr (privateKey K))) \<noteq> Inl AuthenticationFailure)"
proof (intro conjI allI impI)
  show "bind (bind (encrypt L esk nonce now (JStr (publicKey K)) P) (tamper L ''ciphertext'' i))
              (decrypt L (JStr (privateKey K))) =
           Inr (text_decode (if i < 8 * length (plaintext_bytes P)
                             then flip_bit i (plaintext_bytes P) else plaintext_bytes P))"
    by (rule decrypt_tampered_ciphertext[OF assms])
next
  fix field j
  assume h: "(\<forall>v. base64_decode L v \<noteq> Inl AuthenticationFailure) \<and>
            (\<forall>a b. x25519_getSharedSecret L a b \<noteq> Inl AuthenticationFailure)"
  obtain pk epk k where f:
    "base64_decode L (JStr (publicKey K)) = Inr pk"
    "x25519_getPublicKey L esk = Inr epk"
    "x25519_getSharedSecret L esk pk = Inr k"
    "length k = 32"
    using key_agreement[OF assms(1,2,4,5)] by blast
  note n = assms(6)
  obtain E where E: "encrypt L esk nonce now (JStr (publicKey K)) P = Inr E"
    using encrypt_result[OF f n] by blast
  have g: "get_prop v name \<noteq> Inl AuthenticationFailure" for v name
    by (cases v) simp_all
  have t: "tamper L field j E \<noteq> Inl AuthenticationFailure"
    using h g[of E field] by (auto simp: tamper_def bind_def split: sum.splits)
  show "bind (bind (encrypt L esk nonce now (JStr (publicKey K)) P) (tamper L field j))
                 (decrypt L (JStr (privateKey K))) \<noteq> Inl AuthenticationFailure"
    unfolding E bind_Inr
    using t decrypt_never_authentication_failure[of L] h
    by (cases "tamper L field j E") auto
qed

theorem decrypt_does_not_authenticate_witness:
  "bind (bind (encrypt small_lib (replicate 32 1) (replicate 12 7) 1700000000000 example_public
                 (PText (ascii ''hello world'')))
              (tamper small_lib ''ciphertext'' 0))
        (decrypt small_lib example_private) = Inr (ascii ''iello world'') \<and>
   bind (bind (encrypt small_lib (replicate 32 1) (replicate 12 7) 1700000000000 example_public
                 (PText (ascii ''hello world'')))
              (tamper small_lib ''nonce'' 3))
        (decrypt small_lib example_private) \<noteq> Inl AuthenticationFailure"
proof -
  have i: "0 < 8 * (length (plaintext_bytes (PText (ascii ''hello world''))) + 16)" by simp
  note t = decrypt_does_not_authenticate[OF small_lib_base64_ok small_lib_x25519_ok
      small_lib_aead_ok example_key_pair, of "replicate 32 1" "replicate 12 7" 0
      "PText (ascii ''hello world'')" 1700000000000, simplified key_pair.simps]
  have v: "text_decode (flip_bit 0 (utf8_encode (ascii ''hello world''))) = ascii ''iello world''"
    by (simp add: ascii_def utf8_encode_def utf8_encode_cp_def is_surrogate_def byte_of_def
        flip_bit_def text_decode_def utf8_decode_def utf8_step_def utf8_lead_def utf8_init_def)
  have l: "length (utf8_encode (ascii ''hello world'')) = 11"
    by (simp add: ascii_def utf8_encode_def utf8_encode_cp_def is_surrogate_def)
  have a: "\<forall>v. base64_decode small_lib v \<noteq> Inl AuthenticationFailure"
    by (auto simp: small_lib_def b64_decode_def split: jsval.splits option.splits)
  have b: "\<forall>a b. x25519_getSharedSecret small_lib a b \<noteq> Inl AuthenticationFailure"
    by (simp add: small_lib_def small_getSharedSecret_def)
  from t have t1: "bind (bind (encrypt small_lib (replicate 32 1) (replicate 12 7) 1700000000000
        (JStr (b64_encode (replicate 32 6))) (PText (ascii ''hello world'')))
      (tamper small_lib ''ciphertext'' 0))
      (decrypt small_lib (JStr (b64_encode example_private_bytes))) =
      Inr (text_decode (flip_bit 0 (utf8_encode (ascii ''hello world''))))"
    by (simp add: plaintext_bytes_def l)
  from t a b have t2: "bind (bind (encrypt small_lib (replicate 32 1) (replicate 12 7) 1700000000000
        (JStr (b64_encode (replicate 32 6))) (PText (ascii ''hello world'')))
      (tamper small_lib ''nonce'' 3))
      (decrypt small_lib (JStr (b64_encode example_private_bytes))) \<noteq> Inl AuthenticationFailure"
    by (simp add: plaintext_bytes_def l)
  from t1 t2 v show ?thesis by (simp add: example_public_def example_private_def)
qed


section \<open>A modified envelope in a list\<close>

lemma decryptBatch_element_tampered:
  assumes "base64_ok L" "x25519_ok L" "aead_ok L"
    and "generateKeyPair L skBytes = Inr K"
    and "length esk = 32" "length nonce = 12"
    and "well_formed (json_stringify L 0 email)"
    and "json_parse L (json_stringify L 0 email) = Inr parsed"
    and "i < 8 * (length (utf8_encode (json_stringify L 0 email)) + 16)"
    and "8 * length (utf8_encode (json_stringify L 0 email)) \<le> i"
  shows "\<exists>E E'.
           bind (encryptBatch_element L esk nonce now (JStr (publicKey K)) email) (tamper_mail L i) =
             Inr (JObj (put ''encryption'' (JObj E')
                  (put ''encryption'' E (put ''encrypted'' (JBool True) (spread [] email))))) \<and>
           (\<forall>now'. decryptBatch_element L (JStr (privateKey K)) now'
              (JObj (put ''encryption'' (JObj E')
                  (put ''encryption'' E (put ''encrypted'' (JBool True) (spread [] email))))) =
             Inr (decrypted_mail now'
               (JObj (put ''encryption'' (JObj E')
                  (put ''encryption'' E (put ''encrypted'' (JBool True) (spread [] email)))))
               parsed))"
proof -
  let ?P = "PText (json_stringify L 0 email)"
  obtain pk epk k where f:
    "base64_decode L (JStr (publicKey K)) = Inr pk"
    "x25519_getPublicKey L esk = Inr epk"
    "x25519_getSharedSecret L esk pk = Inr k"
    "length k = 32"
    using key_agreement[OF assms(1,2,4,5)] by blast
  note n = assms(6)
  obtain E where E: "encrypt L esk nonce now (JStr (publicKey K)) ?P = Inr E"
    using encrypt_result[OF f n] by blast
  obtain ps where E': "tamper L ''ciphertext'' i E = Inr (JObj ps)"
    using tampered_ciphertext[OF assms(1) f n, of now ?P i] unfolding E bind_Inr by blast
  have i: "i < 8 * (length (plaintext_bytes ?P) + 16)" "\<not> i < 8 * length (plaintext_bytes ?P)"
    using assms(9,10) by (simp_all add: plaintext_bytes_def)
  have "decrypt L (JStr (privateKey K)) (JObj ps) = Inr (text_decode (plaintext_bytes ?P))"
    using decrypt_tampered_ciphertext[OF assms(1-6) i(1), of now] i(2)
    unfolding E bind_Inr E' by simp
  then have d: "decrypt L (JStr (privateKey K)) (JObj ps) = Inr (json_stringify L 0 email)"
    using assms(7) by (simp add: plaintext_bytes_def text_decode_utf8_encode)
  let ?sealed = "JObj (put ''encryption'' E (put ''encrypted'' (JBool True) (spread [] email)))"
  let ?mail' = "JObj (put ''encryption'' (JObj ps)
                  (put ''encryption'' E (put ''encrypted'' (JBool True) (spread [] email))))"
  have s: "encryptBatch_element L esk nonce now (JStr (publicKey K)) email = Inr ?sealed"
    by (simp add: encryptBatch_element_def E)
  have t: "tamper_mail L i ?sealed = Inr ?mail'"
    by (simp add: tamper_mail_def map_of_put E')
  have r: "decryptBatch_element L (JStr (privateKey K)) now' ?mail' =
             Inr (decrypted_mail now' ?mail' parsed)" for now'
    by (simp add: decryptBatch_element_def map_of_put d assms(8) try_catch_def decrypted_mail_def)
  from s t r show ?thesis by auto
qed

text \<open>
  C7 does not hold of the code either, for the same reason. Take a mail of \<open>encryptBatch\<close>
  and flip one bit in the tag of its envelope. In every list of proper elements that holds
  this mail, \<open>decryptBatch\<close> returns a list of the same length whose entry at the place of
  the mail is the object of the success branch, with the contents of the original mail:
  the modified envelope is not reported as a failure.
\<close>

theorem decryptBatch_accepts_tampered:
  assumes "base64_ok L" "x25519_ok L" "aead_ok L"
    and "generateKeyPair L skBytes = Inr K"
    and "length esk = 32" "length nonce = 12"
    and "well_formed (json_stringify L 0 email)"
    and "json_parse L (json_stringify L 0 email) = Inr parsed"
    and "i < 8 * (length (utf8_encode (json_stringify L 0 email)) + 16)"
    and "8 * length (utf8_encode (json_stringify L 0 email)) \<le> i"
  shows "\<exists>mail'.
           bind (encryptBatch_element L esk nonce now (JStr (publicKey K)) email) (tamper_mail L i) =
             Inr mail' \<and>
           (\<forall>before after. (\<forall>e \<in> set (before @ after). \<not> nullish e) \<longrightarrow>
              (\<exists>rs. decryptBatch L clock (JStr (privateKey K)) (before @ mail' # after) = Inr rs \<and>
                    length rs = Suc (length before + length after) \<and>
                    rs ! length before = decrypted_mail (clock (length before)) mail' parsed))"
proof -
  obtain mail' where m:
    "bind (encryptBatch_element L esk nonce now (JStr (publicKey K)) email) (tamper_mail L i) =
       Inr mail'"
    and d: "\<And>now'. decryptBatch_element L (JStr (privateKey K)) now' mail' =
       Inr (decrypted_mail now' mail' parsed)"
    using decryptBatch_element_tampered[OF assms, of now] by blast
  have nn: "\<not> nullish mail'"
    using d[of 0] get_prop_Inl[of mail' "''encrypted''"]
    by (auto simp: decryptBatch_element_def)
  have "\<exists>rs. decryptBatch L clock (JStr (privateKey K)) (before @ mail' # after) = Inr rs \<and>
            length rs = Suc (length before + length after) \<and>
            rs ! length before = decrypted_mail (clock (length before)) mail' parsed"
    if ok: "\<forall>e \<in> set (before @ after). \<not> nullish e" for before after
  proof -
    have "\<forall>e \<in> set (before @ mail' # after). \<not> nullish e" using ok nn by auto
    then obtain rs where rs: "decryptBatch L clock (JStr (privateKey K)) (before @ mail' # after) = Inr rs"
      using decryptBatch_total by blast
    then have len: "length rs = length (before @ mail' # after)"
      and each: "\<forall>j < length (before @ mail' # after).
             decryptBatch_element L (JStr (privateKey K)) (clock j)
               ((before @ mail' # after) ! j) = Inr (rs ! j)"
      by (simp_all add: decryptBatch_elementwise)
    from each[rule_format, of "length before"] d[of "clock (length before)"]
    have "rs ! length before = decrypted_mail (clock (length before)) mail' parsed" by simp
    with rs len show ?thesis by simp
  qed
  with m show ?thesis by blast
qed

lemma example_mail_text:
  "json_stringify small_lib 0 (JObj [(''subject'', JStr (ascii ''hi''))]) = ascii ''{\"subject\":\"hi\"}''"
  by (simp add: small_lib_def small_json_stringify_def json_member_def ascii_def)

lemma example_mail_parsed:
  "json_parse small_lib (ascii ''{\"subject\":\"hi\"}'') = Inr (JObj [(''subject'', JStr (ascii ''hi''))])"
  by (simp add: small_lib_def small_json_parse_def ascii_def char_of_eq_iff)

theorem decryptBatch_accepts_tampered_witness:
  "bind example_tampered_mail (\<lambda>mail'.
     bind (decryptBatch small_lib (\<lambda>j. 1700000000500) example_private [plain_mail, mail', flagged_mail])
       (\<lambda>rs. Inr (length rs, map (get_prop (rs ! 1)) [''subject'', ''encrypted'', ''decryptedAt'', ''error'']))) =
   Inr (3, [Inr (JStr (ascii ''hi'')), Inr (JBool False), Inr (JNum 1700000000500), Inr JUndefined])"
proof -
  let ?email = "JObj [(''subject'', JStr (ascii ''hi''))]"
  have wf: "well_formed (json_stringify small_lib 0 ?email)"
    unfolding example_mail_text
    by (simp add: well_formed_def ascii_def scalar_value_def is_surrogate_def)
  have p: "json_parse small_lib (json_stringify small_lib 0 ?email) = Inr ?email"
    unfolding example_mail_text by (rule example_mail_parsed)
  have l: "length (utf8_encode (json_stringify small_lib 0 ?email)) = 16"
    unfolding example_mail_text
    by (simp add: ascii_def utf8_encode_def utf8_encode_cp_def is_surrogate_def)
  have i: "130 < 8 * (length (utf8_encode (json_stringify small_lib 0 ?email)) + 16)"
    "8 * length (utf8_encode (json_stringify small_lib 0 ?email)) \<le> 130"
    unfolding l by simp_all
  have len: "length (replicate 32 (1::byte)) = 32" "length (replicate 12 (7::byte)) = 12" by simp_all
  obtain mail' where m: "example_tampered_mail = Inr mail'"
    and b: "\<forall>before after. (\<forall>e \<in> set (before @ after). \<not> nullish e) \<longrightarrow>
      (\<exists>rs. decryptBatch small_lib (\<lambda>j. 1700000000500) (JStr (privateKey \<lparr>publicKey = b64_encode (replicate 32 6), privateKey = b64_encode example_private_bytes\<rparr>)) (before @ mail' # after) = Inr rs \<and>
            length rs = Suc (length before + length after) \<and>
            rs ! length before = decrypted_mail 1700000000500 mail' ?email)"
    using decryptBatch_accepts_tampered[OF small_lib_base64_ok small_lib_x25519_ok small_lib_aead_ok
        example_key_pair len wf p i, of 1700000000000 "\<lambda>j. 1700000000500"]
    unfolding example_tampered_mail_def example_public_def by auto
  obtain E E' where shape: "mail' = JObj (put ''encryption'' (JObj E')
        (put ''encryption'' E (put ''encrypted'' (JBool True) (spread [] ?email))))"
    using decryptBatch_element_tampered[OF small_lib_base64_ok small_lib_x25519_ok small_lib_aead_ok
        example_key_pair len wf p i, of 1700000000000] m
    unfolding example_tampered_mail_def example_public_def by auto
  have "\<forall>e \<in> set ([plain_mail] @ [flagged_mail]). \<not> nullish e"
    by (simp add: plain_mail_def flagged_mail_def nullish_def)
  with b obtain rs where rs: "decryptBatch small_lib (\<lambda>j. 1700000000500) example_private
        ([plain_mail] @ mail' # [flagged_mail]) = Inr rs"
    and n: "length rs = 3" and r1: "rs ! 1 = decrypted_mail 1700000000500 mail' ?email"
    unfolding example_private_def by fastforce
  have "map (get_prop (rs ! 1)) [''subject'', ''encrypted'', ''decryptedAt'', ''error''] =
      [Inr (JStr (ascii ''hi'')), Inr (JBool False), Inr (JNum 1700000000500), Inr JUndefined]"
    unfolding r1 shape by (simp add: decrypted_mail_def spread_def)
  with rs n show ?thesis unfolding m bind_Inr by simp
qed


section \<open>Opening a sealed private key\<close>

text \<open>
  C4. A private key sealed under a password, with a salt of 32 bytes and an initialisation
  vector of 16 bytes, opens under the same password to the private key itself. The key is
  a string without unpaired surrogates, as every Base64 text is.
\<close>

theorem decryptPrivateKey_encryptPrivateKey:
  assumes "kdf_ok L" "aead_ok L"
    and "length salt = 32" "length iv = 16"
    and "list_all scalar_value K"
  shows "bind (encryptPrivateKey L salt iv K W) (\<lambda>blob. decryptPrivateKey L blob W) = Inr K"
proof -
  have k: "length (vault_key L W salt) = 32" using assms(1) by (simp add: kdf_ok_def vault_key_def)
  have iv: "iv \<noteq> []" using assms(4) by auto
  have "utf8_decode (utf8_encode K) = K"
    using assms(5) by (simp add: utf8_decode_encode list_all_iff)
  then show ?thesis
    unfolding open_sealed[OF assms(2) k k iv]
    by (simp add: vault_ciphertext_def vault_body_twice)
qed

theorem decryptPrivateKey_encryptPrivateKey_witness:
  "bind (encryptPrivateKey small_lib (replicate 32 9) (replicate 16 1)
           (b64_encode example_private_bytes) (ascii ''correct-horse-battery-staple1234''))
        (\<lambda>blob. decryptPrivateKey small_lib blob (ascii ''correct-horse-battery-staple1234'')) =
   Inr (b64_encode example_private_bytes)"
proof -
  have sv: "list_all scalar_value (b64_encode example_private_bytes)"
    by (rule b64_encode_scalar)
  show ?thesis
    using decryptPrivateKey_encryptPrivateKey[OF small_lib_kdf_ok small_lib_aead_ok _ _ sv,
        of "replicate 32 9" "replicate 16 1" "ascii ''correct-horse-battery-staple1234''"]
    by simp
qed


section \<open>Opening with another password\<close>

text \<open>
  C5, as amended. Opening a sealed private key with any password either fails with an
  authentication failure, and with no other error, or returns: it fails exactly when the
  tag of the stored ciphertext under the key derived from that password differs from the
  stored tag.
\<close>

theorem open_with_other_password:
  assumes "kdf_ok L" "aead_ok L"
    and "length salt = 32" "length iv = 16"
  shows "bind (encryptPrivateKey L salt iv K W) (\<lambda>blob. decryptPrivateKey L blob W') =
     (if vault_tag L W' salt iv (vault_ciphertext L W salt iv K) =
         vault_tag L W salt iv (vault_ciphertext L W salt iv K)
      then Inr (utf8_decode (vault_body L (vault_key L W' salt) iv (vault_ciphertext L W salt iv K)))
      else Inl AuthenticationFailure)"
proof -
  have k: "length (vault_key L P salt) = 32" for P
    using assms(1) by (simp add: kdf_ok_def vault_key_def)
  have iv: "iv \<noteq> []" using assms(4) by auto
  show ?thesis by (rule open_sealed[OF assms(2) k k iv])
qed

theorem open_with_other_password_witness:
  "bind (encryptPrivateKey small_lib (replicate 32 9) (replicate 16 1)
           (b64_encode example_private_bytes) (ascii ''correct-horse-battery-staple1234''))
        (\<lambda>blob. decryptPrivateKey small_lib blob (ascii ''wrong-passphrase-wrong-passphras'')) =
   Inl AuthenticationFailure"
proof -
  have a: "sum_list (utf8_encode (ascii ''correct-horse-battery-staple1234'')) = 232"
    by (simp add: ascii_def utf8_encode_def utf8_encode_cp_def is_surrogate_def byte_of_def)
  have b: "sum_list (utf8_encode (ascii ''wrong-passphrase-wrong-passphras'')) = 240"
    by (simp add: ascii_def utf8_encode_def utf8_encode_cp_def is_surrogate_def byte_of_def)
  have at: "auth_tag small_lib = small_auth_tag" and kd: "pbkdf2Sync small_lib = small_pbkdf2"
    by (simp_all add: small_lib_def)
  have k: "take (Suc 0) (vault_key small_lib P s) = [sum_list (utf8_encode P) + 7 * sum_list s]" for P s
    by (simp add: vault_key_def kd small_pbkdf2_def byte_of_def take_map)
  have "vault_tag small_lib (ascii ''wrong-passphrase-wrong-passphras'') (replicate 32 9) iv c \<noteq>
      vault_tag small_lib (ascii ''correct-horse-battery-staple1234'') (replicate 32 9) iv c" for iv c
    by (auto simp: vault_tag_def at small_auth_tag_def k a b intro: exI[of _ 0])
  then show ?thesis
    using open_with_other_password[OF small_lib_kdf_ok small_lib_aead_ok,
        of "replicate 32 9" "replicate 16 1" "b64_encode example_private_bytes"
        "ascii ''correct-horse-battery-staple1234''" "ascii ''wrong-passphrase-wrong-passphras''"]
    by simp
qed


text \<open>
  C5, as stated, fails: HMAC fills a short key with zero bytes, so PBKDF2 derives the same
  key from the password \<open>pw\<close> and from \<open>pw\<close> followed by the character U+0000, and a
  private key sealed under the first opens under the second.
\<close>

theorem opens_with_padded_password:
  "bind (encryptPrivateKey hmac_lib (replicate 32 9) (replicate 16 1)
           (b64_encode example_private_bytes) (ascii ''pw''))
        (\<lambda>blob. decryptPrivateKey hmac_lib blob (ascii ''pw'' @ [0])) =
     Inr (b64_encode example_private_bytes) \<and>
   ascii ''pw'' @ [0] \<noteq> ascii ''pw''"
proof -
  have p: "pbkdf2Sync hmac_lib = pbkdf2_hmac small_hash" by (simp add: hmac_lib_def)
  have k: "length (vault_key hmac_lib (ascii ''pw'') (replicate 32 9)) = 32"
    by (simp add: vault_key_def p length_pbkdf2_hmac_small)
  have l: "length (utf8_encode (ascii ''pw'')) < 128"
    by (simp add: ascii_def utf8_encode_def utf8_encode_cp_def is_surrogate_def)
  have iv: "replicate 16 (1::byte) \<noteq> []" by simp
  have "bind (encryptPrivateKey hmac_lib (replicate 32 9) (replicate 16 1)
           (b64_encode example_private_bytes) (ascii ''pw''))
        (\<lambda>blob. decryptPrivateKey hmac_lib blob (ascii ''pw'' @ [0])) =
     Inr (b64_encode example_private_bytes)"
    by (rule opens_with_nul_padded_password[OF hmac_lib_aead_ok p k iv l b64_encode_scalar])
  then show ?thesis by (simp add: ascii_def)
qed


section \<open>Opening a modified blob\<close>



section \<open>The files on disk\<close>

text \<open>
  C8, as amended. \<open>saveKeys\<close> writes two files into the output directory: the public key
  as it is, and as \<open>private-key.json\<close> the serialisation of an object with exactly the
  four fields \<open>salt\<close>, \<open>iv\<close>, \<open>authTag\<close> and \<open>encrypted\<close>, each the hexadecimal text of
  its bytes. The private key is in the file only as \<open>encrypted\<close>, the AES-256-GCM
  ciphertext of its text under the key derived from the password.
\<close>

theorem saveKeys_writes:
  assumes "kdf_ok L" "length salt = 32" "length iv = 16"
  shows "saveKeys L salt iv keyPair W outputDir fs =
     Inr (((outputDir, ''public-key.txt''), (outputDir, ''private-key.json'')),
          fs((outputDir, ''public-key.txt'') \<mapsto> publicKey keyPair,
             (outputDir, ''private-key.json'') \<mapsto>
               json_stringify L 2 (JObj
                 [(''salt'', JStr (hex_encode salt)),
                  (''iv'', JStr (hex_encode iv)),
                  (''authTag'', JStr (hex_encode (vault_tag L W salt iv
                      (vault_ciphertext L W salt iv (privateKey keyPair))))),
                  (''encrypted'', JStr (hex_encode
                      (vault_ciphertext L W salt iv (privateKey keyPair))))])))"
proof -
  have key: "length (vault_key L W salt) = 32"
    using assms(1) by (simp add: kdf_ok_def vault_key_def)
  have ivn: "iv \<noteq> []" using assms(3) by auto
  show ?thesis
    unfolding saveKeys_def sealed_blob[OF key ivn] bind_Inr by (simp add: Let_def)
qed

theorem saveKeys_writes_witness:
  "saveKeys small_lib (replicate 32 9) (replicate 16 1) example_key_pair_value
     (ascii ''correct-horse-battery-staple1234'') ''./keys'' Map.empty =
   Inr (((''./keys'', ''public-key.txt''), (''./keys'', ''private-key.json'')),
        [(''./keys'', ''public-key.txt'') \<mapsto> b64_encode (replicate 32 6),
         (''./keys'', ''private-key.json'') \<mapsto>
           json_stringify small_lib 2 (JObj
             [(''salt'', JStr (hex_encode (replicate 32 9))),
              (''iv'', JStr (hex_encode (replicate 16 1))),
              (''authTag'', JStr (hex_encode (vault_tag small_lib
                  (ascii ''correct-horse-battery-staple1234'') (replicate 32 9) (replicate 16 1)
                  (vault_ciphertext small_lib (ascii ''correct-horse-battery-staple1234'')
                     (replicate 32 9) (replicate 16 1) (b64_encode example_private_bytes))))),
              (''encrypted'', JStr (hex_encode
                  (vault_ciphertext small_lib (ascii ''correct-horse-battery-staple1234'')
                     (replicate 32 9) (replicate 16 1) (b64_encode example_private_bytes))))])])"
  using saveKeys_writes[OF small_lib_kdf_ok, of "replicate 32 9" "replicate 16 1"
      example_key_pair_value "ascii ''correct-horse-battery-staple1234''" "''./keys''" Map.empty]
  by (simp add: example_key_pair_value_def)

text \<open>
  C8, as stated, fails on the name of the fourth field: a sealed blob has the fields
  \<open>salt\<close>, \<open>iv\<close>, \<open>authTag\<close> and \<open>encrypted\<close>, and no field \<open>ciphertext\<close>.
\<close>

theorem sealed_blob_field_names:
  "bind (encryptPrivateKey small_lib (replicate 32 9) (replicate 16 1)
           (b64_encode example_private_bytes) (ascii ''correct-horse-battery-staple1234''))
        (\<lambda>blob. Inr (map fst (own_props blob), get_prop blob ''ciphertext'')) =
   Inr ([''salt'', ''iv'', ''authTag'', ''encrypted''], Inr JUndefined)"
proof -
  have key: "length (vault_key small_lib (ascii ''correct-horse-battery-staple1234'')
      (replicate 32 9)) = 32"
    using small_lib_kdf_ok by (simp add: kdf_ok_def vault_key_def)
  have ivn: "replicate 16 (1::byte) \<noteq> []" by simp
  show ?thesis unfolding sealed_blob[OF key ivn] bind_Inr by simp
qed

end
